theory Spec2Isabelle
  imports Main "HOL-Library.Sublist" "HOL-Library.Char_ord" "HOL-Library.List_Lexorder"
begin

section \<open>Strings\<close>

text \<open>
  JavaScript strings are sequences of code units.  They are modelled as \<^typ>\<open>string\<close>;
  every string the program inspects (slashes, header names, URL paths) is ASCII, and
  \<open>length\<close>, \<open>startsWith\<close> and \<open>slice\<close> count the same units on both sides.
\<close>

abbreviation slash :: char where
  "slash \<equiv> CHR ''/''"

abbreviation quote :: char where
  "quote \<equiv> CHR 0x27"

abbreviation dquote :: char where
  "dquote \<equiv> CHR 0x22"

text \<open>\<^verbatim>\<open>s.startsWith(p)\<close>\<close>

definition startsWith :: "string \<Rightarrow> string \<Rightarrow> bool" where
  "startsWith s p = (take (length p) s = p)"

text \<open>\<^verbatim>\<open>s.slice(n)\<close> for a non-negative \<open>n\<close>\<close>

definition slice_from :: "string \<Rightarrow> nat \<Rightarrow> string" where
  "slice_from s n = drop n s"

section \<open>utils.ts: base paths\<close>

text \<open>
  \<^verbatim>\<open>.replace(/\/+/g, "/")\<close>: every maximal run of slashes becomes one slash.
\<close>

fun collapseSlashes :: "string \<Rightarrow> string" where
  "collapseSlashes [] = []"
| "collapseSlashes [c] = [c]"
| "collapseSlashes (c # d # cs) =
     (if c = slash \<and> d = slash then collapseSlashes (d # cs)
      else c # collapseSlashes (d # cs))"

text \<open>
  \<^verbatim>\<open>.replace(/\/+$/g, "")\<close>: the run of slashes that ends the string is removed.
\<close>

definition stripTrailingSlashes :: "string \<Rightarrow> string" where
  "stripTrailingSlashes s = rev (dropWhile (\<lambda>c. c = slash) (rev s))"

text \<open>
  \<^verbatim>\<open>normalizeBasePath(base?: string)\<close>.  The optional argument is an \<open>option\<close>;
  \<^verbatim>\<open>!base\<close> holds for \<open>undefined\<close> and for the empty string.
\<close>

definition normalizeBasePath :: "string option \<Rightarrow> string" where
  "normalizeBasePath base =
     (case base of
        None \<Rightarrow> []
      | Some b \<Rightarrow>
          if b = [] \<or> b = ''/'' then []
          else
            let collapsed = collapseSlashes (if startsWith b ''/'' then b else ''/'' @ b)
            in stripTrailingSlashes collapsed)"

text \<open>
  The platform's URL record, as far as the program reads it: \<open>url_origin\<close> is what
  stands before the path, that is the scheme, the credentials if the URL has any
  (\<^verbatim>\<open>user:password@\<close>), the host and the port (\<^verbatim>\<open>http://localhost:5173\<close>); the
  other fields are the \<^verbatim>\<open>pathname\<close>, \<^verbatim>\<open>search\<close> and \<^verbatim>\<open>hash\<close> properties.
\<close>

record url =
  url_origin :: string
  url_pathname :: string
  url_search :: string
  url_hash :: string

text \<open>
  What the program takes from its platform (Node, the Fetch classes, Vite, minimatch).
  These functions are not code of the repository; the general theorems below hold for
  any value of them.
  \<^item> \<open>URL_ctor v b\<close> is \<^verbatim>\<open>new URL(v, b)\<close>; \<open>None\<close> is the \<^verbatim>\<open>TypeError\<close> of an
    input that does not parse.
  \<^item> \<open>minimatch t p\<close> is \<^verbatim>\<open>minimatch(t, p, { dot: true })\<close>.
  \<^item> \<open>normalizePath\<close> is Vite's; \<open>path_join\<close> and \<open>posix_join\<close> are
    \<^verbatim>\<open>path.join\<close> and \<^verbatim>\<open>path.posix.join\<close> of two arguments.
  \<^item> \<open>fs_isFile p\<close> is \<^verbatim>\<open>fs.existsSync(p) && fs.statSync(p).isFile()\<close>.
  \<^item> \<open>hasGetSetCookie\<close> is \<^verbatim>\<open>typeof headers.getSetCookie === "function"\<close>.
\<close>

record platform =
  URL_ctor :: "string \<Rightarrow> string option \<Rightarrow> url option"
  minimatch :: "string \<Rightarrow> string \<Rightarrow> bool"
  normalizePath :: "string \<Rightarrow> string"
  path_join :: "string \<Rightarrow> string \<Rightarrow> string"
  posix_join :: "string \<Rightarrow> string \<Rightarrow> string"
  fs_isFile :: "string \<Rightarrow> bool"
  hasGetSetCookie :: bool

text \<open>
  \<^verbatim>\<open>safeParseUrlPath\<close>: the \<^verbatim>\<open>try\<close>/\<^verbatim>\<open>catch\<close> turns the constructor's exception
  into \<^verbatim>\<open>undefined\<close>, here \<open>None\<close>.
\<close>

definition safeParseUrlPath :: "platform \<Rightarrow> string \<Rightarrow> string option" where
  "safeParseUrlPath pf v =
     (case URL_ctor pf v (Some ''http://localhost'') of
        None \<Rightarrow> None
      | Some u \<Rightarrow> Some (url_pathname u))"

text \<open>
  A Fetch header list: pairs of a lower-cased name and a value, in insertion order; a
  name may occur more than once (\<^verbatim>\<open>set-cookie\<close>).
\<close>

type_synonym headers = "(string \<times> string) list"

text \<open>
  A Fetch \<^verbatim>\<open>Request\<close>.  It keeps its URL parsed; \<^verbatim>\<open>new URL(request.url)\<close> reads
  that record back.  \<open>rq_body\<close> is \<open>None\<close> when the request has no body.
\<close>

record request =
  rq_url :: url
  rq_method :: string
  rq_headers :: headers
  rq_body :: "string option"

text \<open>
  \<^verbatim>\<open>new Request(url, request)\<close>: the new request takes method, headers and body from
  \<open>request\<close> and its URL from \<open>url\<close>.
\<close>

definition Request_from :: "url \<Rightarrow> request \<Rightarrow> request" where
  "Request_from u r = r\<lparr>rq_url := u\<rparr>"

text \<open>
  \<^verbatim>\<open>createBasePathRewriter\<close>.  The result is \<^verbatim>\<open>undefined\<close> (\<open>None\<close>) for an
  empty normalized base.  Assigning \<^verbatim>\<open>url.pathname\<close> stores the given path: the
  two values assigned here are \<^verbatim>\<open>"/"\<close> and a suffix of a parsed path that starts
  at a slash, which the platform's setter keeps as they are.
\<close>

definition createBasePathRewriter :: "string option \<Rightarrow> (request \<Rightarrow> request) option" where
  "createBasePathRewriter base =
     (let normalizedBase = normalizeBasePath base in
      if normalizedBase = [] then None
      else
        let prefixLength = length normalizedBase;
            prefixWithSlash = normalizedBase @ ''/''
        in Some (\<lambda>request.
             let u = rq_url request;
                 pathname = url_pathname u
             in if pathname = normalizedBase then
                  Request_from (u\<lparr>url_pathname := ''/''\<rparr>) request
                else if startsWith pathname prefixWithSlash then
                  Request_from
                    (u\<lparr>url_pathname :=
                        (let rest = slice_from pathname prefixLength
                         in if rest = [] then ''/'' else rest)\<rparr>)
                    request
                else request))"

text \<open>
  The middleware's \<^verbatim>\<open>if (rewriteRequestForBase) { request = rewriteRequestForBase(request) }\<close>,
  where \<^verbatim>\<open>rewriteRequestForBase = createBasePathRewriter(options.base)\<close>.
\<close>

definition rewriteRequestForBase :: "string option \<Rightarrow> request \<Rightarrow> request" where
  "rewriteRequestForBase base request =
     (case createBasePathRewriter base of
        None \<Rightarrow> request
      | Some rewrite \<Rightarrow> rewrite request)"

text \<open>
  \<^verbatim>\<open>createBasePathGuard\<close>.  The pathname is optional (\<^verbatim>\<open>pathname?: string\<close>);
  \<^verbatim>\<open>!!pathname\<close> is false for \<^verbatim>\<open>undefined\<close> and for the empty string.
\<close>

definition createBasePathGuard :: "string option \<Rightarrow> string option \<Rightarrow> bool" where
  "createBasePathGuard base =
     (let normalizedBase = normalizeBasePath base in
      if normalizedBase = [] then (\<lambda>_. True)
      else
        let withTrailingSlash = normalizedBase @ ''/''
        in (\<lambda>pathname.
              case pathname of
                None \<Rightarrow> False
              | Some p \<Rightarrow> p \<noteq> [] \<and> (p = normalizedBase \<or> startsWith p withTrailingSlash)))"

text \<open>
  For the statements about \<open>normalizeBasePath\<close>: whether a string has two slashes
  in a row; the pieces of a string between its slashes (\<^verbatim>\<open>s.split("/")\<close>); the
  non-empty ones, its segments; and the path that gives every segment of a list one
  leading slash.
\<close>

fun hasDoubleSlash :: "string \<Rightarrow> bool" where
  "hasDoubleSlash (c # d # cs) = ((c = slash \<and> d = slash) \<or> hasDoubleSlash (d # cs))"
| "hasDoubleSlash _ = False"

fun splitSlash :: "string \<Rightarrow> string list" where
  "splitSlash [] = [[]]"
| "splitSlash (c # cs) =
     (if c = slash then [] # splitSlash cs
      else (case splitSlash cs of [] \<Rightarrow> [[c]] | x # xs \<Rightarrow> (c # x) # xs))"

definition segments :: "string \<Rightarrow> string list" where
  "segments s = filter (\<lambda>x. x \<noteq> []) (splitSlash s)"

definition fromSegments :: "string list \<Rightarrow> string" where
  "fromSegments segs = concat (map (\<lambda>seg. slash # seg) segs)"

section \<open>index.ts: patterns\<close>

text \<open>
  A \<^verbatim>\<open>RegExp\<close> object.  \<open>re_matcher r s i\<close> is the pattern's match attempt on
  \<open>s\<close> anchored at index \<open>i\<close>, giving the end index of the match.  The flags
  \<^verbatim>\<open>g\<close> and \<^verbatim>\<open>y\<close> and the mutable \<^verbatim>\<open>lastIndex\<close> are part of the object,
  as \<^verbatim>\<open>RegExp.prototype.test\<close> reads and writes them.
\<close>

record regexp =
  re_matcher :: "string \<Rightarrow> nat \<Rightarrow> nat option"
  re_global :: bool
  re_sticky :: bool
  re_lastIndex :: nat

text \<open>The first candidate index at which the matcher succeeds.\<close>

primrec firstMatch :: "(nat \<Rightarrow> nat option) \<Rightarrow> nat list \<Rightarrow> nat option" where
  "firstMatch m [] = None"
| "firstMatch m (i # is) = (case m i of Some e \<Rightarrow> Some e | None \<Rightarrow> firstMatch m is)"

text \<open>
  The search of \<^verbatim>\<open>RegExpBuiltinExec\<close>: from \<open>start\<close>, every index up to and
  including the length of the string is tried; a sticky pattern tries \<open>start\<close> only.
\<close>

definition re_search :: "regexp \<Rightarrow> string \<Rightarrow> nat \<Rightarrow> nat option" where
  "re_search r s start =
     (if length s < start then None
      else if re_sticky r then re_matcher r s start
      else firstMatch (re_matcher r s) [start ..< Suc (length s)])"

text \<open>
  \<^verbatim>\<open>pattern.test(target)\<close>: the result and the object afterwards.  With \<^verbatim>\<open>g\<close> or
  \<^verbatim>\<open>y\<close> the search starts at \<^verbatim>\<open>lastIndex\<close>, which becomes the end of the match,
  or 0 when there is none.
\<close>

definition regexp_test :: "regexp \<Rightarrow> string \<Rightarrow> bool \<times> regexp" where
  "regexp_test r s =
     (if re_global r \<or> re_sticky r then
        (case re_search r s (re_lastIndex r) of
           None \<Rightarrow> (False, r\<lparr>re_lastIndex := 0\<rparr>)
         | Some e \<Rightarrow> (True, r\<lparr>re_lastIndex := e\<rparr>))
      else (re_search r s 0 \<noteq> None, r))"

text \<open>\<^verbatim>\<open>type Pattern = RegExp | string\<close>\<close>

datatype pattern = RegExp regexp | Glob string

text \<open>\<^verbatim>\<open>matchPattern\<close>, with the pattern as it is after the call.\<close>

fun matchPattern :: "platform \<Rightarrow> pattern \<Rightarrow> string \<Rightarrow> bool \<times> pattern" where
  "matchPattern pf (RegExp r) target =
     (let (b, r') = regexp_test r target in (b, RegExp r'))"
| "matchPattern pf (Glob g) target = (minimatch pf target g, Glob g)"

text \<open>
  \<^verbatim>\<open>patterns.some((pattern) => matchPattern(pattern, target))\<close>: the patterns are
  tried in order up to the first that matches.  The \<^verbatim>\<open>for\<close> loop over
  \<^verbatim>\<open>excludePatterns\<close> in the middleware is the same iteration.
\<close>

fun somePattern :: "platform \<Rightarrow> pattern list \<Rightarrow> string \<Rightarrow> bool \<times> pattern list" where
  "somePattern pf [] target = (False, [])"
| "somePattern pf (p # ps) target =
     (let (b, p') = matchPattern pf p target in
      if b then (True, p' # ps)
      else (let (b', ps') = somePattern pf ps target in (b', p' # ps')))"

definition shouldIgnorePath :: "platform \<Rightarrow> string \<Rightarrow> pattern list \<Rightarrow> bool \<times> pattern list" where
  "shouldIgnorePath pf filePath patterns =
     (let normalized = normalizePath pf filePath
      in somePattern pf patterns normalized)"

text \<open>
  A pattern's own matching rule, as a predicate on the path: a regular expression
  matches when it has a match at some index of the path, a glob when
  \<^verbatim>\<open>minimatch\<close> with \<^verbatim>\<open>dot: true\<close> accepts.
\<close>

fun patternMatches :: "platform \<Rightarrow> pattern \<Rightarrow> string \<Rightarrow> bool" where
  "patternMatches pf (RegExp r) target =
     (firstMatch (re_matcher r target) [0 ..< Suc (length target)] \<noteq> None)"
| "patternMatches pf (Glob g) target = minimatch pf target g"

text \<open>A pattern without the \<^verbatim>\<open>g\<close> and \<^verbatim>\<open>y\<close> flags.\<close>

fun unflagged :: "pattern \<Rightarrow> bool" where
  "unflagged (RegExp r) = (\<not> re_global r \<and> \<not> re_sticky r)"
| "unflagged (Glob g) = True"

section \<open>index.ts: requests and responses\<close>

text \<open>\<^verbatim>\<open>toLowerCase\<close> on ASCII.\<close>

definition lower_char :: "char \<Rightarrow> char" where
  "lower_char c =
     (case map_of (zip ''ABCDEFGHIJKLMNOPQRSTUVWXYZ'' ''abcdefghijklmnopqrstuvwxyz'') c of
        None \<Rightarrow> c
      | Some l \<Rightarrow> l)"

definition toLowerCase :: "string \<Rightarrow> string" where
  "toLowerCase s = map lower_char s"

text \<open>\<^verbatim>\<open>values.join(sep)\<close>\<close>

fun join :: "string \<Rightarrow> string list \<Rightarrow> string" where
  "join sep [] = []"
| "join sep [x] = x"
| "join sep (x # y # ys) = x @ sep @ join sep (y # ys)"

text \<open>
  The \<^verbatim>\<open>Headers\<close> class on a header list (Fetch standard): \<^verbatim>\<open>get\<close> combines the
  values of a name with a comma and a space, \<^verbatim>\<open>set\<close> replaces the first entry of
  the name and removes the others, \<^verbatim>\<open>getSetCookie\<close> lists the \<^verbatim>\<open>set-cookie\<close>
  values, and iteration (\<^verbatim>\<open>forEach\<close>) goes through the sorted names, each with its
  combined value, except that an environment with \<^verbatim>\<open>getSetCookie\<close> gives every
  \<^verbatim>\<open>set-cookie\<close> value an entry of its own.
\<close>

definition headers_values :: "headers \<Rightarrow> string \<Rightarrow> string list" where
  "headers_values hs n = map snd (filter (\<lambda>(k, v). k = n) hs)"

definition headers_get :: "headers \<Rightarrow> string \<Rightarrow> string option" where
  "headers_get hs name =
     (let vs = headers_values hs (toLowerCase name)
      in if vs = [] then None else Some (join '', '' vs))"

fun headers_put :: "string \<Rightarrow> string \<Rightarrow> headers \<Rightarrow> headers" where
  "headers_put k v [] = [(k, v)]"
| "headers_put k v ((k', v') # hs) =
     (if k' = k then (k, v) # filter (\<lambda>(n, w). n \<noteq> k) hs
      else (k', v') # headers_put k v hs)"

definition headers_set :: "string \<Rightarrow> string \<Rightarrow> headers \<Rightarrow> headers" where
  "headers_set name v hs = headers_put (toLowerCase name) v hs"

definition headers_delete :: "string \<Rightarrow> headers \<Rightarrow> headers" where
  "headers_delete name hs = filter (\<lambda>(k, v). k \<noteq> toLowerCase name) hs"

definition headers_getSetCookie :: "headers \<Rightarrow> string list" where
  "headers_getSetCookie hs = headers_values hs ''set-cookie''"

definition headers_entries :: "platform \<Rightarrow> headers \<Rightarrow> (string \<times> string) list" where
  "headers_entries pf hs =
     concat (map (\<lambda>n. if n = ''set-cookie'' \<and> hasGetSetCookie pf
                       then map (Pair n) (headers_values hs n)
                       else [(n, join '', '' (headers_values hs n))])
                 (sort (remdups (map fst hs))))"

text \<open>
  Node's \<^verbatim>\<open>IncomingMessage\<close>: \<^verbatim>\<open>method\<close> and \<^verbatim>\<open>url\<close> may be undefined;
  \<^verbatim>\<open>headers\<close> is an object whose values are a string, an array of strings or
  undefined, here the list of its entries; \<open>in_chunks\<close> are the chunks of the
  stream, read to its end.
\<close>

datatype hval = Single string | Multi "string list"

record incoming =
  in_method :: "string option"
  in_url :: "string option"
  in_headers :: "(string \<times> hval option) list"
  in_chunks :: "string list"

text \<open>Exceptions.\<close>

datatype exn = TypeError | RangeError | Thrown string

text \<open>A string or an array inside a template literal.\<close>

fun hval_text :: "hval \<Rightarrow> string" where
  "hval_text (Single v) = v"
| "hval_text (Multi vs) = join '','' vs"

text \<open>\<^verbatim>\<open>req.headers.host\<close>: the property of the object, undefined when absent.\<close>

definition header_prop :: "(string \<times> hval option) list \<Rightarrow> string \<Rightarrow> hval option" where
  "header_prop hs k = (case map_of hs k of None \<Rightarrow> None | Some v \<Rightarrow> v)"

text \<open>
  The loop over \<^verbatim>\<open>Object.entries(req.headers)\<close>: undefined values are skipped, an
  array is joined with commas.
\<close>

fun copyHeaders :: "(string \<times> hval option) list \<Rightarrow> headers \<Rightarrow> headers" where
  "copyHeaders [] headers = headers"
| "copyHeaders ((key, None) # es) headers = copyHeaders es headers"
| "copyHeaders ((key, Some (Multi vs)) # es) headers =
     copyHeaders es (headers_set key (join '','' vs) headers)"
| "copyHeaders ((key, Some (Single v)) # es) headers =
     copyHeaders es (headers_set key v headers)"

text \<open>\<^verbatim>\<open>toUpperCase\<close> on ASCII.\<close>

definition upper_char :: "char \<Rightarrow> char" where
  "upper_char c =
     (case map_of (zip ''abcdefghijklmnopqrstuvwxyz'' ''ABCDEFGHIJKLMNOPQRSTUVWXYZ'') c of
        None \<Rightarrow> c
      | Some u \<Rightarrow> u)"

definition toUpperCase :: "string \<Rightarrow> string" where
  "toUpperCase s = map upper_char s"

text \<open>
  Methods in the Fetch standard.  A method is an HTTP token: a non-empty string of
  letters, digits and the characters listed here (the last two are the single quote
  and the backtick).  The methods \<^verbatim>\<open>CONNECT\<close>, \<^verbatim>\<open>TRACE\<close> and \<^verbatim>\<open>TRACK\<close> are
  forbidden, in any case of the letters.  Normalizing a method puts the six standard
  methods in upper case.
\<close>

definition tchar :: "char \<Rightarrow> bool" where
  "tchar c =
     (c \<in> set (''abcdefghijklmnopqrstuvwxyz'' @ ''ABCDEFGHIJKLMNOPQRSTUVWXYZ''
                @ ''0123456789'' @ ''!#$%&*+-.^_|~'' @ [CHR 0x27, CHR 0x60]))"

definition isToken :: "string \<Rightarrow> bool" where
  "isToken s = (s \<noteq> [] \<and> list_all tchar s)"

definition forbiddenMethod :: "string \<Rightarrow> bool" where
  "forbiddenMethod m = (toUpperCase m \<in> set [''CONNECT'', ''TRACE'', ''TRACK''])"

definition normalizeMethod :: "string \<Rightarrow> string" where
  "normalizeMethod m =
     (if toUpperCase m \<in> set [''DELETE'', ''GET'', ''HEAD'', ''OPTIONS'', ''POST'', ''PUT'']
      then toUpperCase m else m)"

text \<open>A URL includes credentials when a user name or password stands before its host.\<close>

definition includesCredentials :: "url \<Rightarrow> bool" where
  "includesCredentials u = (CHR ''@'' \<in> set (url_origin u))"

text \<open>
  \<^verbatim>\<open>new Request(url, { method, headers, body })\<close>, by the steps of the Fetch
  standard's constructor that can fail here.  Each of them throws a \<^verbatim>\<open>TypeError\<close>: the
  URL string does not parse; the parsed URL includes credentials; the method is not
  a token or is forbidden; there is a body and the normalized method is \<^verbatim>\<open>GET\<close> or
  \<^verbatim>\<open>HEAD\<close>.  The request keeps the normalized method.  The header names and values
  that Node's parser delivers are valid, so filling the headers does not fail.
\<close>

definition Request_ctor ::
    "platform \<Rightarrow> string \<Rightarrow> string \<Rightarrow> headers \<Rightarrow> string option \<Rightarrow> exn + request" where
  "Request_ctor pf u method headers body =
     (case URL_ctor pf u None of
        None \<Rightarrow> Inl TypeError
      | Some parsed \<Rightarrow>
          if includesCredentials parsed then Inl TypeError
          else if \<not> isToken method \<or> forbiddenMethod method then Inl TypeError
          else if body \<noteq> None
                  \<and> normalizeMethod method \<in> set [''GET'', ''HEAD''] then Inl TypeError
          else Inr \<lparr>rq_url = parsed, rq_method = normalizeMethod method,
                    rq_headers = headers, rq_body = body\<rparr>)"

text \<open>\<^verbatim>\<open>createWorkerRequest\<close>\<close>

definition createWorkerRequest :: "platform \<Rightarrow> incoming \<Rightarrow> exn + request" where
  "createWorkerRequest pf req =
     (let method = (case in_method req of None \<Rightarrow> ''GET'' | Some m \<Rightarrow> m);
          u = ''http://''
              @ (case header_prop (in_headers req) ''host'' of
                   None \<Rightarrow> ''localhost'' | Some h \<Rightarrow> hval_text h)
              @ (case in_url req of None \<Rightarrow> ''/'' | Some p \<Rightarrow> p);
          headers = copyHeaders (in_headers req) [];
          body = (if method \<notin> set [''GET'', ''HEAD'']
                  then Some (concat (in_chunks req)) else None)
      in Request_ctor pf u method headers body)"

text \<open>
  A Fetch \<^verbatim>\<open>Response\<close>; \<open>rs_body\<close> is \<open>None\<close> for a null body.
\<close>

record response =
  rs_status :: nat
  rs_headers :: headers
  rs_body :: "string option"

text \<open>\<^verbatim>\<open>await response.text()\<close>\<close>

definition response_text :: "response \<Rightarrow> string" where
  "response_text r = (case rs_body r of None \<Rightarrow> [] | Some t \<Rightarrow> t)"

text \<open>
  The null body statuses of the Fetch standard: a response with one of them cannot
  have a body.
\<close>

definition nullBodyStatus :: "nat \<Rightarrow> bool" where
  "nullBodyStatus status = (status \<in> set [101, 103, 204, 205, 304])"

text \<open>
  \<^verbatim>\<open>new Response(text, { status, headers })\<close> with a string body.  The constructor
  throws a \<^verbatim>\<open>RangeError\<close> for a status outside 200 to 599, and a \<^verbatim>\<open>TypeError\<close>
  for a null body status, since the body is not null.  It adds a \<^verbatim>\<open>content-type\<close>
  when the headers have none.
\<close>

definition Response_ctor :: "string \<Rightarrow> nat \<Rightarrow> headers \<Rightarrow> exn + response" where
  "Response_ctor text status headers =
     (if status < 200 \<or> 599 < status then Inl RangeError
      else if nullBodyStatus status then Inl TypeError
      else Inr \<lparr>rs_status = status,
                rs_headers = (if headers_get headers ''content-type'' = None
                              then headers @ [(''content-type'', ''text/plain;charset=UTF-8'')]
                              else headers),
                rs_body = Some text\<rparr>)"

text \<open>\<^verbatim>\<open>injectStringToResponse\<close>\<close>

definition injectStringToResponse :: "response \<Rightarrow> string \<Rightarrow> exn + response" where
  "injectStringToResponse response content =
     (let text = response_text response;
          headers = headers_delete ''content-length'' (rs_headers response)
      in Response_ctor (text @ content) (rs_status response) headers)"

text \<open>
  Node's \<^verbatim>\<open>ServerResponse\<close>: the status code, the headers set so far (by
  lower-cased name, a string or an array of strings each) and what became of the body.
\<close>

datatype res_out = Pending | Piped string | Ended

record native_res =
  statusCode :: nat
  res_headers :: "string \<rightharpoonup> hval"
  res_output :: res_out

definition setHeader :: "string \<Rightarrow> hval \<Rightarrow> native_res \<Rightarrow> native_res" where
  "setHeader name v res = res\<lparr>res_headers := (res_headers res)(toLowerCase name \<mapsto> v)\<rparr>"

text \<open>JavaScript truthiness of a string, an array or \<^verbatim>\<open>null\<close>.\<close>

fun truthy :: "hval option \<Rightarrow> bool" where
  "truthy None = False"
| "truthy (Some (Single v)) = (v \<noteq> [])"
| "truthy (Some (Multi vs)) = True"

text \<open>\<^verbatim>\<open>sendResponse\<close>\<close>

definition sendResponse :: "platform \<Rightarrow> native_res \<Rightarrow> response \<Rightarrow> native_res" where
  "sendResponse pf res response =
     (let res1 = res\<lparr>statusCode := rs_status response\<rparr>;
          setCookie =
            (if hasGetSetCookie pf
             then Some (Multi (headers_getSetCookie (rs_headers response)))
             else map_option Single (headers_get (rs_headers response) ''set-cookie''));
          res2 = (if truthy setCookie then setHeader ''set-cookie'' (the setCookie) res1
                  else res1);
          res3 = fold (\<lambda>(key, v) r.
                         if toLowerCase key = ''set-cookie'' then r
                         else setHeader key (Single v) r)
                      (headers_entries pf (rs_headers response)) res2
      in case rs_body response of
           Some b \<Rightarrow> res3\<lparr>res_output := Piped b\<rparr>
         | None \<Rightarrow> res3\<lparr>res_output := Ended\<rparr>)"

section \<open>index.ts: client-script injection\<close>

text \<open>
  \<^verbatim>\<open>csp.match(/'nonce-([^']+)'/)?.[1]\<close>.  \<open>nonceAt s\<close> is the match attempt at
  the start of \<open>s\<close>: the seven characters \<^verbatim>\<open>'nonce-\<close>, then the longest run of
  characters other than a quote, which must be non-empty and followed by a quote.
  \<open>findNonce\<close> takes the leftmost position where the attempt succeeds.
\<close>

definition nonceAt :: "string \<Rightarrow> string option" where
  "nonceAt s =
     (if startsWith s (quote # ''nonce-'') then
        let rest = drop 7 s;
            n = takeWhile (\<lambda>c. c \<noteq> quote) rest;
            after = dropWhile (\<lambda>c. c \<noteq> quote) rest
        in if n \<noteq> [] \<and> after \<noteq> [] then Some n else None
      else None)"

fun findNonce :: "string \<Rightarrow> string option" where
  "findNonce [] = None"
| "findNonce (c # cs) =
     (case nonceAt (c # cs) of Some n \<Rightarrow> Some n | None \<Rightarrow> findNonce cs)"

text \<open>The template literal of the script tag.\<close>

definition scriptTag :: "string option \<Rightarrow> string \<Rightarrow> string" where
  "scriptTag nonce viteScript =
     ''<script''
     @ (case nonce of None \<Rightarrow> [] | Some n \<Rightarrow> '' nonce='' @ [dquote] @ n @ [dquote])
     @ ''>import('' @ [dquote] @ viteScript @ [dquote] @ '')</script>''"

text \<open>
  The plugin's options, as far as the middleware reads them, and
  \<^verbatim>\<open>defaultOptions.injectClientScript\<close>.
\<close>

record options =
  opt_base :: "string option"
  opt_injectClientScript :: "bool option"

definition default_injectClientScript :: bool where
  "default_injectClientScript = True"

text \<open>
  The injection branch of the middleware.  \<^verbatim>\<open>contentType?.match(/^text\/html/)\<close>
  holds when the header is present and starts with \<^verbatim>\<open>text/html\<close>, in these
  lower-case letters.  The result is the response to send, or the exception of the
  \<^verbatim>\<open>Response\<close> constructor.
\<close>

definition injectClientScript ::
    "platform \<Rightarrow> options \<Rightarrow> string \<Rightarrow> response \<Rightarrow> exn + response" where
  "injectClientScript pf opts viteBase response =
     (if (case opt_injectClientScript opts of
            None \<Rightarrow> default_injectClientScript | Some b \<Rightarrow> b)
      then
        (case headers_get (rs_headers response) ''content-type'' of
           None \<Rightarrow> Inr response
         | Some contentType \<Rightarrow>
             if startsWith contentType ''text/html'' then
               let viteScript = posix_join pf viteBase ''/@vite/client'';
                   nonce = (case headers_get (rs_headers response) ''content-security-policy'' of
                              None \<Rightarrow> None
                            | Some csp \<Rightarrow> findNonce csp);
                   script = scriptTag nonce viteScript
               in injectStringToResponse response script
             else Inr response)
      else Inr response)"

section \<open>index.ts: the plugin's state and the middleware\<close>

text \<open>
  The emulator instance is known by its \<^verbatim>\<open>dispatchFetch\<close>: a response or an
  exception for every request.
\<close>

type_synonym miniflare = "request \<Rightarrow> exn + response"

text \<open>
  The variables of the \<^verbatim>\<open>miniflareDevServer\<close> closure.  \<open>excludePatterns\<close> is
  \<^verbatim>\<open>options.exclude ?? defaultOptions.exclude\<close>; the list is constant, the
  \<^verbatim>\<open>RegExp\<close> objects in it are mutable.
\<close>

record plugin_state =
  publicDirPath :: string
  viteBase :: string
  mf :: "miniflare option"
  buildInProgress :: bool
  buildQueued :: bool
  excludePatterns :: "pattern list"

text \<open>
  What a run of the middleware does to the outside, in order: a call of \<^verbatim>\<open>next()\<close>,
  a call of \<^verbatim>\<open>next(error)\<close>, a request handed to the emulator, a response written.
\<close>

datatype event = CallNext | CallNextError exn | Dispatch request | Send native_res

text \<open>The check for a file of the public directory.\<close>

definition publicFileExists :: "platform \<Rightarrow> string \<Rightarrow> string \<Rightarrow> bool" where
  "publicFileExists pf dir u =
     (dir \<noteq> [] \<and>
      (case safeParseUrlPath pf u of
         None \<Rightarrow> False
       | Some pathname \<Rightarrow> pathname \<noteq> [] \<and> fs_isFile pf (path_join pf dir pathname)))"

text \<open>The worker-bound part: bridge, rewrite, dispatch, injection, send.\<close>

definition workerPipeline ::
    "platform \<Rightarrow> options \<Rightarrow> string \<Rightarrow> miniflare \<Rightarrow> incoming \<Rightarrow> native_res \<Rightarrow> event list" where
  "workerPipeline pf opts vbase m req res =
     (case createWorkerRequest pf req of
        Inl e \<Rightarrow> [CallNextError e]
      | Inr request0 \<Rightarrow>
          let request = rewriteRequestForBase (opt_base opts) request0
          in case m request of
               Inl e \<Rightarrow> [Dispatch request, CallNextError e]
             | Inr response0 \<Rightarrow>
                 (case injectClientScript pf opts vbase response0 of
                    Inl e \<Rightarrow> [Dispatch request, CallNextError e]
                  | Inr response \<Rightarrow>
                      [Dispatch request, Send (sendResponse pf res response)]))"

text \<open>
  The middleware installed by \<^verbatim>\<open>configureServer\<close>: its events, and the exclude
  patterns as the run leaves them.  \<^verbatim>\<open>!req.url\<close> holds for an undefined and for
  an empty URL.
\<close>

definition middleware ::
    "platform \<Rightarrow> options \<Rightarrow> 'a plugin_state_scheme \<Rightarrow> incoming \<Rightarrow> native_res
     \<Rightarrow> event list \<times> pattern list" where
  "middleware pf opts st req res =
     (case (in_url req, mf st) of
        (Some u, Some m) \<Rightarrow>
          if u = [] then ([CallNext], excludePatterns st)
          else if publicFileExists pf (publicDirPath st) u then ([CallNext], excludePatterns st)
          else
            let (excluded, patterns) = somePattern pf (excludePatterns st) u
            in if excluded then ([CallNext], patterns)
               else
                 let pathname = safeParseUrlPath pf u
                 in if \<not> createBasePathGuard (opt_base opts) pathname then ([CallNext], patterns)
                    else (workerPipeline pf opts (viteBase st) m req res, patterns)
      | _ \<Rightarrow> ([CallNext], excludePatterns st))"

section \<open>index.ts: the rebuild cycle\<close>

text \<open>
  \<^verbatim>\<open>rebuildWorker\<close> is an \<^verbatim>\<open>async\<close> function on one thread: a call runs up to
  its next \<^verbatim>\<open>await\<close>, and is resumed when the awaited promise settles.  The state is
  the closure's variables together with the calls that are suspended, each at one of
  the three \<^verbatim>\<open>await\<close>s of the function, and two counters: the bundler invocations
  started, and the \<^verbatim>\<open>full-reload\<close> messages sent.
\<close>

datatype pc = AwaitBuild | AwaitSetOptions | AwaitNested

datatype settled = Fulfilled | Rejected

record rebuild_state = plugin_state +
  suspended :: "pc list"
  buildsStarted :: nat
  reloadsSent :: nat

text \<open>
  A call of \<^verbatim>\<open>rebuildWorker\<close> up to its first suspension: it returns at once when a
  build is in progress, and otherwise invokes the bundler and awaits it.  Between
  setting the flag and the bundler call the code resolves two paths and builds the
  configuration object; it has no suspension point there.
\<close>

definition rebuildWorker :: "rebuild_state \<Rightarrow> rebuild_state" where
  "rebuildWorker s =
     (if buildInProgress s then s\<lparr>buildQueued := True\<rparr>
      else s\<lparr>buildInProgress := True,
             suspended := AwaitBuild # suspended s,
             buildsStarted := Suc (buildsStarted s)\<rparr>)"

text \<open>
  The \<^verbatim>\<open>finally\<close> block: the nested call runs to its own suspension, then the
  caller awaits it.
\<close>

definition rebuildFinally :: "rebuild_state \<Rightarrow> rebuild_state" where
  "rebuildFinally s =
     (let s1 = s\<lparr>buildInProgress := False\<rparr>
      in if buildQueued s1 then
           (let s2 = rebuildWorker (s1\<lparr>buildQueued := False\<rparr>)
            in s2\<lparr>suspended := AwaitNested # suspended s2\<rparr>)
         else s1)"

text \<open>
  What can happen: \<^verbatim>\<open>rebuildWorker\<close> is called (by the debounce timer or at server
  start); an awaited \<^verbatim>\<open>build\<close> settles, where the event also says what
  \<^verbatim>\<open>new Miniflare(mfOptions)\<close> gives if the call reaches it (\<open>None\<close>: it throws);
  an awaited \<^verbatim>\<open>mf.setOptions\<close> settles; an awaited nested call settles.
\<close>

datatype rebuild_event =
    Call
  | BuildSettled settled "miniflare option"
  | SetOptionsSettled settled
  | NestedSettled

text \<open>
  One step; \<open>None\<close> when no suspended call waits for the event.  Suspended calls at
  the same \<^verbatim>\<open>await\<close> have no local state that differs, so the event resumes the
  first of them.  A nested call's caller does nothing after it is resumed; it may be
  resumed at any time here.
\<close>

fun rebuild_step :: "rebuild_event \<Rightarrow> rebuild_state \<Rightarrow> rebuild_state option" where
  "rebuild_step Call s = Some (rebuildWorker s)"
| "rebuild_step (BuildSettled r ctor) s =
     (if AwaitBuild \<in> set (suspended s) then
        let s0 = s\<lparr>suspended := remove1 AwaitBuild (suspended s)\<rparr>
        in case r of
             Rejected \<Rightarrow> Some (rebuildFinally s0)
           | Fulfilled \<Rightarrow>
               (case mf s0 of
                  None \<Rightarrow>
                    (case ctor of
                       None \<Rightarrow> Some (rebuildFinally s0)
                     | Some m \<Rightarrow>
                         Some (rebuildFinally
                                 (s0\<lparr>mf := Some m, reloadsSent := Suc (reloadsSent s0)\<rparr>)))
                | Some m \<Rightarrow> Some (s0\<lparr>suspended := AwaitSetOptions # suspended s0\<rparr>))
      else None)"
| "rebuild_step (SetOptionsSettled r) s =
     (if AwaitSetOptions \<in> set (suspended s) then
        let s0 = s\<lparr>suspended := remove1 AwaitSetOptions (suspended s)\<rparr>
        in case r of
             Rejected \<Rightarrow> Some (rebuildFinally s0)
           | Fulfilled \<Rightarrow> Some (rebuildFinally (s0\<lparr>reloadsSent := Suc (reloadsSent s0)\<rparr>))
      else None)"
| "rebuild_step NestedSettled s =
     (if AwaitNested \<in> set (suspended s)
      then Some (s\<lparr>suspended := remove1 AwaitNested (suspended s)\<rparr>)
      else None)"

fun rebuild_run :: "rebuild_event list \<Rightarrow> rebuild_state \<Rightarrow> rebuild_state option" where
  "rebuild_run [] s = Some s"
| "rebuild_run (e # es) s =
     (case rebuild_step e s of None \<Rightarrow> None | Some s' \<Rightarrow> rebuild_run es s')"

text \<open>
  The state when the plugin is created: no emulator, no build, nothing suspended.
  \<open>dir\<close>, \<open>vbase\<close> and \<open>ps\<close> are the resolved public directory, Vite's base and the
  exclude patterns.
\<close>

definition initial_state :: "string \<Rightarrow> string \<Rightarrow> pattern list \<Rightarrow> rebuild_state" where
  "initial_state dir vbase ps =
     \<lparr>publicDirPath = dir, viteBase = vbase, mf = None,
      buildInProgress = False, buildQueued = False, excludePatterns = ps,
      suspended = [], buildsStarted = 0, reloadsSent = 0\<rparr>"

text \<open>The bundler invocations in flight, and the calls that hold the in-progress flag.\<close>

definition inflight :: "rebuild_state \<Rightarrow> nat" where
  "inflight s = length (filter (\<lambda>t. t = AwaitBuild) (suspended s))"

definition active :: "rebuild_state \<Rightarrow> nat" where
  "active s = length (filter (\<lambda>t. t \<noteq> AwaitNested) (suspended s))"

text \<open>The events that end a build cycle, that is, after which the \<^verbatim>\<open>finally\<close> block runs.\<close>

fun endsCycle :: "rebuild_event \<Rightarrow> rebuild_state \<Rightarrow> bool" where
  "endsCycle Call s = False"
| "endsCycle (BuildSettled r ctor) s =
     (AwaitBuild \<in> set (suspended s) \<and> (r = Rejected \<or> mf s = None))"
| "endsCycle (SetOptionsSettled r) s = (AwaitSetOptions \<in> set (suspended s))"
| "endsCycle NestedSettled s = False"

text \<open>
  The invariant of the rebuild cycle: the in-progress flag is set exactly when one
  call is suspended at the build or at the reconfiguration, there is never more than
  one such call, and a rebuild is queued only while one is in progress.
\<close>

definition rebuild_inv :: "rebuild_state \<Rightarrow> bool" where
  "rebuild_inv s =
     (active s = (if buildInProgress s then 1 else 0)
      \<and> (buildInProgress s \<or> \<not> buildQueued s))"

section \<open>Terms of the statements\<close>




text \<open>What \<^verbatim>\<open>sendResponse\<close> does with one name of the iteration over the headers.\<close>

definition copyHeader :: "headers \<Rightarrow> string \<Rightarrow> native_res \<Rightarrow> native_res" where
  "copyHeader hs name r =
     (if toLowerCase name = ''set-cookie'' then r
      else setHeader name (Single (join '', '' (headers_values hs name))) r)"


section \<open>Values for the examples\<close>

text \<open>
  The regular expression \<^verbatim>\<open>/\.css$/g\<close>, as a user may pass it in
  \<^verbatim>\<open>exclude\<close> or \<^verbatim>\<open>ignoreWatching\<close>: anchored at index \<open>i\<close>, it matches when
  the rest of the string is \<^verbatim>\<open>.css\<close>, and the match ends where the string ends.
\<close>

definition css_matcher :: "string \<Rightarrow> nat \<Rightarrow> nat option" where
  "css_matcher s i = (if drop i s = ''.css'' then Some (length s) else None)"

definition css_global :: regexp where
  "css_global =
     \<lparr>re_matcher = css_matcher, re_global = True, re_sticky = False, re_lastIndex = 0\<rparr>"

text \<open>
  A fragment of the platform's URL parser, for \<^verbatim>\<open>http\<close> URLs whose host is made of
  lower-case letters and whose path is made of slashes and of segments of letters,
  digits and dots other than \<^verbatim>\<open>.\<close> and \<^verbatim>\<open>..\<close>.  After the scheme the parser skips
  every slash, reads the host up to the next slash and fails when the host is empty;
  an input that starts with two slashes takes the scheme of the base, one that starts
  with one slash takes scheme and host of the base.
\<close>

definition sample_authority :: "string \<Rightarrow> url option" where
  "sample_authority rest =
     (let r = dropWhile (\<lambda>c. c = slash) rest;
          host = takeWhile (\<lambda>c. c \<noteq> slash) r;
          path = dropWhile (\<lambda>c. c \<noteq> slash) r
      in if host = [] then None
         else Some \<lparr>url_origin = ''http://'' @ host,
                     url_pathname = (if path = [] then ''/'' else path),
                     url_search = [], url_hash = []\<rparr>)"

definition sample_URL :: "string \<Rightarrow> string option \<Rightarrow> url option" where
  "sample_URL v b =
     (if startsWith v ''http:'' then sample_authority (drop 5 v)
      else case b of
             None \<Rightarrow> None
           | Some base \<Rightarrow>
               if startsWith v ''//'' then sample_authority v
               else if startsWith v ''/'' then
                 Some \<lparr>url_origin = base, url_pathname = v, url_search = [], url_hash = []\<rparr>
               else None)"

text \<open>
  A platform for the examples: the parser above; \<^verbatim>\<open>minimatch\<close> on patterns without
  wildcards, which match themselves only; Vite's \<^verbatim>\<open>normalizePath\<close> on paths that are
  normalized already; the two joins on paths without dot segments; a file system
  with the single file \<^verbatim>\<open>/srv/public/logo.png\<close>; and a runtime whose \<^verbatim>\<open>Headers\<close>
  has \<^verbatim>\<open>getSetCookie\<close>.
\<close>

definition sample_platform :: platform where
  "sample_platform =
     \<lparr>URL_ctor = sample_URL,
      minimatch = (\<lambda>target p. target = p),
      normalizePath = (\<lambda>p. p),
      path_join = (\<lambda>a b. collapseSlashes (a @ ''/'' @ b)),
      posix_join = (\<lambda>a b. collapseSlashes (a @ ''/'' @ b)),
      fs_isFile = (\<lambda>p. p = ''/srv/public/logo.png''),
      hasGetSetCookie = True\<rparr>"

text \<open>
  A request as Node delivers it, with a given method, request target and body chunks;
  an emulator whose worker answers every request with its path as plain text; a
  response object nothing has been written to; and the plugin's state once the first
  build has created that emulator, with the public directory \<^verbatim>\<open>/srv/public\<close> and a
  given list of exclude patterns.
\<close>

definition sample_incoming :: "string \<Rightarrow> string option \<Rightarrow> string list \<Rightarrow> incoming" where
  "sample_incoming m u chunks =
     \<lparr>in_method = Some m, in_url = u,
      in_headers = [(''host'', Some (Single ''localhost'')),
                    (''accept'', Some (Single ''*/*'')),
                    (''x-forwarded-for'', Some (Multi [''10.0.0.1'', ''10.0.0.2''])),
                    (''cookie'', None)],
      in_chunks = chunks\<rparr>"

definition sample_worker :: miniflare where
  "sample_worker request =
     Inr \<lparr>rs_status = 200,
          rs_headers = [(''content-type'', ''text/plain'')],
          rs_body = Some (url_pathname (rq_url request))\<rparr>"

definition fresh_res :: native_res where
  "fresh_res = \<lparr>statusCode = 200, res_headers = Map.empty, res_output = Pending\<rparr>"

definition serving_state :: "pattern list \<Rightarrow> rebuild_state" where
  "serving_state ps = (initial_state ''/srv/public'' ''/'' ps)\<lparr>mf := Some sample_worker\<rparr>"

text \<open>A request to a given path, for the examples.\<close>

definition sample_request :: "string \<Rightarrow> request" where
  "sample_request path =
     \<lparr>rq_url = \<lparr>url_origin = ''http://localhost:5173'', url_pathname = path,
                url_search = ''?q=1'', url_hash = []\<rparr>,
      rq_method = ''POST'',
      rq_headers = [(''content-type'', ''text/plain'')],
      rq_body = Some ''hello''\<rparr>"

text \<open>
  A state for the examples, in a project with the public directory \<^verbatim>\<open>/srv/public\<close>:
  one build in flight, and a rebuild queued behind it.
\<close>

definition building_queued :: rebuild_state where
  "building_queued =
     (initial_state ''/srv/public'' ''/'' [])\<lparr>buildInProgress := True, buildQueued := True,
        suspended := [AwaitBuild], buildsStarted := 1\<rparr>"

text \<open>A response with two cookies.\<close>

definition two_cookies :: response where
  "two_cookies =
     \<lparr>rs_status = 201,
      rs_headers = [(''content-type'', ''text/html''), (''set-cookie'', ''a=1''),
                    (''set-cookie'', ''b=2'')],
      rs_body = Some ''<p>ok</p>''\<rparr>"






definition not_modified_page :: response where
  "not_modified_page =
     \<lparr>rs_status = 304,
      rs_headers = [(''content-type'', ''text/html'')],
      rs_body = None\<rparr>"

section \<open>Base paths: normalization and guard\<close>

lemma collapse_Nil_iff: "collapseSlashes s = [] \<longleftrightarrow> s = []"
  by (induction s rule: collapseSlashes.induct) auto

lemma collapse_hd: "hd (collapseSlashes s) = hd s"
  by (induction s rule: collapseSlashes.induct) auto

lemma splitSlash_ne: "splitSlash s \<noteq> []"
  by (induction s) (auto split: list.splits)

lemma hd_splitSlash: "hd (splitSlash t) = [] \<longleftrightarrow> t = [] \<or> hd t = slash"
  by (cases t) (auto split: list.splits)

lemma segments_Cons:
  "segments (c # t) =
     (if c = slash then segments t
      else if t = [] \<or> hd t = slash then [c] # segments t
      else (c # hd (segments t)) # tl (segments t))"
proof (cases "splitSlash t")
  case Nil
  then show ?thesis using splitSlash_ne by simp
next
  case (Cons x xs)
  then have "x = [] \<longleftrightarrow> t = [] \<or> hd t = slash" using hd_splitSlash[of t] by simp
  then show ?thesis using Cons by (auto simp: segments_def)
qed

lemma segments_collapse: "segments (collapseSlashes s) = segments s"
proof (induction s rule: collapseSlashes.induct)
  case (3 c d cs)
  show ?case
  proof (cases "c = slash \<and> d = slash")
    case True
    then show ?thesis using 3 by (simp add: segments_def)
  next
    case False
    then have ih: "segments (collapseSlashes (d # cs)) = segments (d # cs)" using 3 by auto
    have "collapseSlashes (c # d # cs) = c # collapseSlashes (d # cs)" using False by auto
    then have "segments (collapseSlashes (c # d # cs)) = segments (c # collapseSlashes (d # cs))" by simp
    also have "\<dots> = segments (c # d # cs)"
      unfolding segments_Cons[of c "collapseSlashes (d # cs)"] segments_Cons[of c "d # cs"] ih
      using collapse_hd[of "d # cs"] collapse_Nil_iff[of "d # cs"] by simp
    finally show ?thesis .
  qed
qed (auto simp: segments_def)

lemma splitSlash_snoc: "splitSlash (t @ [slash]) = splitSlash t @ [[]]"
  by (induction t) (auto split: list.splits simp: splitSlash_ne)

lemma segments_snoc: "segments (t @ [slash]) = segments t"
  by (simp add: segments_def splitSlash_snoc)

lemma segments_replicate: "segments (t @ replicate n slash) = segments t"
proof (induction n)
  case (Suc n)
  have "t @ replicate (Suc n) slash = (t @ replicate n slash) @ [slash]"
    by (simp add: replicate_append_same)
  then show ?case using Suc segments_snoc[of "t @ replicate n slash"] by simp
qed simp

lemma strip_decomp: "\<exists>n. s = stripTrailingSlashes s @ replicate n slash"
proof -
  let ?P = "\<lambda>c. c = slash"
  have a: "rev s = takeWhile ?P (rev s) @ dropWhile ?P (rev s)" by simp
  have "\<forall>x\<in>set (takeWhile ?P (rev s)). x = slash"
    using set_takeWhileD by fastforce
  then have "takeWhile ?P (rev s) = replicate (length (takeWhile ?P (rev s))) slash"
    by (simp add: replicate_length_same)
  then obtain n where n: "takeWhile ?P (rev s) = replicate n slash" by blast
  have "s = rev (dropWhile ?P (rev s)) @ rev (takeWhile ?P (rev s))"
    using a by (metis rev_append rev_rev_ident)
  then show ?thesis unfolding stripTrailingSlashes_def n by auto
qed

lemma segments_strip: "segments (stripTrailingSlashes s) = segments s"
proof -
  obtain n where "s = stripTrailingSlashes s @ replicate n slash" using strip_decomp by blast
  then show ?thesis using segments_replicate[of "stripTrailingSlashes s" n] by simp
qed

lemma join_splitSlash: "join ''/'' (splitSlash t) = t"
proof (induction t)
  case (Cons c t)
  obtain x xs where x: "splitSlash t = x # xs" using splitSlash_ne by (cases "splitSlash t") auto
  show ?case using Cons x by (cases xs) auto
qed simp

lemma fromSegments_join: "xs \<noteq> [] \<Longrightarrow> fromSegments xs = slash # join ''/'' xs"
proof (induction xs rule: induct_list012)
  case (3 x y zs)
  then show ?case by (simp add: fromSegments_def)
qed (simp_all add: fromSegments_def)

lemma hasDouble_tl: "\<not> hasDoubleSlash (c # cs) \<Longrightarrow> \<not> hasDoubleSlash cs"
  by (cases cs) auto

lemma splitSlash_tl_no_empty:
  "\<not> hasDoubleSlash u \<Longrightarrow> u = [] \<or> last u \<noteq> slash \<Longrightarrow> [] \<notin> set (tl (splitSlash u))"
proof (induction u)
  case (Cons c cs)
  have nd: "\<not> hasDoubleSlash cs" using Cons.prems(1) hasDouble_tl by blast
  have la: "cs = [] \<or> last cs \<noteq> slash" using Cons.prems(2) by auto
  have ih: "[] \<notin> set (tl (splitSlash cs))" using Cons.IH nd la by blast
  obtain x xs where x: "splitSlash cs = x # xs" using splitSlash_ne by (cases "splitSlash cs") auto
  show ?case
  proof (cases "c = slash")
    case True
    have "cs \<noteq> []" using Cons.prems(2) True by auto
    moreover have "hd cs \<noteq> slash" using Cons.prems(1) True \<open>cs \<noteq> []\<close> by (cases cs) auto
    ultimately have "x \<noteq> []" using hd_splitSlash[of cs] x by simp
    then show ?thesis using True ih x by simp
  next
    case False
    then show ?thesis using ih x by simp
  qed
qed simp

lemma splitSlash_no_empty:
  assumes "u \<noteq> []" "hd u \<noteq> slash" "\<not> hasDoubleSlash u" "last u \<noteq> slash"
  shows "[] \<notin> set (splitSlash u)"
proof -
  obtain x xs where x: "splitSlash u = x # xs" using splitSlash_ne by (cases "splitSlash u") auto
  have "x \<noteq> []" using hd_splitSlash[of u] x assms by simp
  moreover have "[] \<notin> set xs" using splitSlash_tl_no_empty[of u] assms x by simp
  ultimately show ?thesis using x by simp
qed

lemma normal_form_fixed:
  assumes "startsWith t ''/''" "\<not> hasDoubleSlash t" "last t \<noteq> slash"
  shows "fromSegments (segments t) = t"
proof -
  obtain u where t: "t = slash # u" using assms(1) by (cases t) (auto simp: startsWith_def)
  have u: "u \<noteq> []" using assms(3) t by auto
  have "hd u \<noteq> slash" using assms(2) t u by (cases u) auto
  moreover have "\<not> hasDoubleSlash u" using assms(2) t hasDouble_tl by blast
  moreover have "last u \<noteq> slash" using assms(3) t u by simp
  ultimately have ne: "[] \<notin> set (splitSlash u)" using splitSlash_no_empty u by blast
  have "segments t = splitSlash u" unfolding t segments_def using ne by (auto simp: filter_id_conv)
  then have "fromSegments (segments t) = slash # join ''/'' (splitSlash u)"
    using fromSegments_join splitSlash_ne by simp
  then show ?thesis using join_splitSlash t by simp
qed

lemma collapse_no_double: "\<not> hasDoubleSlash (collapseSlashes s)"
proof (induction s rule: collapseSlashes.induct)
  case (3 c d cs)
  have "collapseSlashes (d # cs) \<noteq> []" by (simp add: collapse_Nil_iff)
  then obtain e es where e: "collapseSlashes (d # cs) = e # es"
    by (cases "collapseSlashes (d # cs)") auto
  have "e = d" using collapse_hd[of "d # cs"] e by simp
  with 3 e show ?case by auto
qed auto

lemma collapse_filter:
  "filter (\<lambda>c. c \<noteq> slash) (collapseSlashes s) = filter (\<lambda>c. c \<noteq> slash) s"
  by (induction s rule: collapseSlashes.induct) auto

lemma hasDouble_append: "hasDoubleSlash xs \<Longrightarrow> hasDoubleSlash (xs @ ys)"
  by (induction xs rule: hasDoubleSlash.induct) auto

lemma strip_no_double: "\<not> hasDoubleSlash s \<Longrightarrow> \<not> hasDoubleSlash (stripTrailingSlashes s)"
proof -
  assume a: "\<not> hasDoubleSlash s"
  obtain n where "s = stripTrailingSlashes s @ replicate n slash" using strip_decomp by blast
  then show ?thesis using a hasDouble_append[of "stripTrailingSlashes s" "replicate n slash"] by auto
qed

lemma strip_Nil_iff: "stripTrailingSlashes s = [] \<longleftrightarrow> (\<forall>c\<in>set s. c = slash)"
  by (auto simp: stripTrailingSlashes_def dropWhile_eq_Nil_conv)

lemma strip_last: "stripTrailingSlashes s \<noteq> [] \<Longrightarrow> last (stripTrailingSlashes s) \<noteq> slash"
proof -
  let ?d = "dropWhile (\<lambda>c. c = slash) (rev s)"
  assume "stripTrailingSlashes s \<noteq> []"
  then have ne: "?d \<noteq> []" by (simp add: stripTrailingSlashes_def)
  then have "hd ?d \<noteq> slash" using hd_dropWhile[of "\<lambda>c. c = slash" "rev s"] by simp
  then show ?thesis using ne by (simp add: stripTrailingSlashes_def last_rev)
qed

lemma strip_hd: "stripTrailingSlashes s \<noteq> [] \<Longrightarrow> hd (stripTrailingSlashes s) = hd s"
proof -
  assume a: "stripTrailingSlashes s \<noteq> []"
  obtain n where "s = stripTrailingSlashes s @ replicate n slash" using strip_decomp by blast
  then show ?thesis using a hd_append2[of "stripTrailingSlashes s" "replicate n slash"] by simp
qed

lemma segments_all_slash: "\<forall>c\<in>set s. c = slash \<Longrightarrow> segments s = []"
  by (induction s) (auto simp: segments_def)

lemma collapse_set: "set (collapseSlashes s) = set s"
  by (induction s rule: collapseSlashes.induct) auto

text \<open>The pipeline of the function, on a string that starts with a slash.\<close>

lemma pipeline_segments:
  "stripTrailingSlashes (collapseSlashes (slash # u)) = fromSegments (segments u)"
proof (cases "stripTrailingSlashes (collapseSlashes (slash # u)) = []")
  case True
  then have "\<forall>c\<in>set u. c = slash" by (simp add: strip_Nil_iff collapse_set)
  then show ?thesis using True by (simp add: segments_all_slash fromSegments_def)
next
  case False
  let ?r = "stripTrailingSlashes (collapseSlashes (slash # u))"
  have "hd ?r = slash" using strip_hd[OF False] collapse_hd[of "slash # u"] by simp
  then have a: "startsWith ?r ''/''" using False by (cases ?r) (auto simp: startsWith_def)
  have b: "\<not> hasDoubleSlash ?r" by (rule strip_no_double) (rule collapse_no_double)
  have c: "last ?r \<noteq> slash" by (rule strip_last[OF False])
  have "segments ?r = segments u"
    by (simp add: segments_strip segments_collapse segments_Cons del: collapseSlashes.simps)
  then show ?thesis using normal_form_fixed[OF a b c] by simp
qed

lemma normalize_Some:
  "normalizeBasePath (Some b) = fromSegments (segments b)"
proof (cases "b = [] \<or> b = ''/''")
  case True
  then show ?thesis by (auto simp: normalizeBasePath_def segments_def fromSegments_def)
next
  case False
  show ?thesis
  proof (cases "startsWith b ''/''")
    case True
    then obtain u where u: "b = slash # u" by (cases b) (auto simp: startsWith_def)
    have "normalizeBasePath (Some b) = stripTrailingSlashes (collapseSlashes (slash # u))"
      using False True u by (simp add: normalizeBasePath_def)
    then show ?thesis using pipeline_segments[of u] u by (simp add: segments_Cons)
  next
    case nsw: False
    have "normalizeBasePath (Some b) = stripTrailingSlashes (collapseSlashes (slash # b))"
      using False nsw by (simp add: normalizeBasePath_def)
    then show ?thesis using pipeline_segments[of b] by simp
  qed
qed

lemma segments_Nil_iff: "segments s = [] \<longleftrightarrow> (\<forall>c\<in>set s. c = slash)"
proof
  assume "segments s = []"
  then show "\<forall>c\<in>set s. c = slash"
  proof (induction s)
    case (Cons c s)
    then show ?case by (auto simp: segments_Cons split: if_splits)
  qed simp
qed (rule segments_all_slash)

lemma pipeline_shape:
  assumes "\<exists>c\<in>set u. c \<noteq> slash"
  shows "startsWith (stripTrailingSlashes (collapseSlashes (slash # u))) ''/''
         \<and> \<not> hasDoubleSlash (stripTrailingSlashes (collapseSlashes (slash # u)))
         \<and> last (stripTrailingSlashes (collapseSlashes (slash # u))) \<noteq> slash"
proof -
  let ?r = "stripTrailingSlashes (collapseSlashes (slash # u))"
  have ne: "?r \<noteq> []" using assms by (simp add: strip_Nil_iff collapse_set)
  have "hd ?r = slash" using strip_hd[OF ne] collapse_hd[of "slash # u"] by simp
  then have a: "startsWith ?r ''/''" using ne by (cases ?r) (auto simp: startsWith_def)
  have b: "\<not> hasDoubleSlash ?r" by (rule strip_no_double) (rule collapse_no_double)
  have c: "last ?r \<noteq> slash" by (rule strip_last[OF ne])
  show ?thesis using a b c by blast
qed

lemma normalize_shape:
  assumes "\<exists>c\<in>set b. c \<noteq> slash"
  shows "startsWith (normalizeBasePath (Some b)) ''/''
         \<and> \<not> hasDoubleSlash (normalizeBasePath (Some b))
         \<and> last (normalizeBasePath (Some b)) \<noteq> slash"
proof -
  have nt: "\<not> (b = [] \<or> b = ''/'')" using assms by auto
  show ?thesis
  proof (cases "startsWith b ''/''")
    case True
    then obtain u where u: "b = slash # u" by (cases b) (auto simp: startsWith_def)
    have eq: "normalizeBasePath (Some b) = stripTrailingSlashes (collapseSlashes (slash # u))"
      using nt True u by (simp add: normalizeBasePath_def)
    have "\<exists>c\<in>set u. c \<noteq> slash" using assms u by auto
    then show ?thesis unfolding eq by (rule pipeline_shape)
  next
    case False
    have eq: "normalizeBasePath (Some b) = stripTrailingSlashes (collapseSlashes (slash # b))"
      using nt False by (simp add: normalizeBasePath_def)
    show ?thesis unfolding eq using assms by (rule pipeline_shape)
  qed
qed

lemma normalize_all_slash:
  assumes "\<forall>c\<in>set b. c = slash"
  shows "normalizeBasePath (Some b) = []"
  using assms by (simp add: normalize_Some segments_all_slash fromSegments_def)

text \<open>
  Claim C4, as amended.  \<open>normalizeBasePath\<close> of an absent base is the empty string,
  and of a string \<open>b\<close> it is the path of the segments of \<open>b\<close>, each with one leading
  slash.  So a base that consists of slashes only (the empty string, \<^verbatim>\<open>/\<close>,
  \<^verbatim>\<open>//\<close>, ...) gives the empty string, and every other base gives a string that
  starts with a slash, has no two slashes in a row and does not end in a slash.  The
  four examples of the specification hold.
\<close>

theorem normalizeBasePath_amended:
  "normalizeBasePath None = []
   \<and> normalizeBasePath (Some b) = fromSegments (segments b)
   \<and> ((\<forall>c\<in>set b. c = slash) \<longrightarrow> normalizeBasePath (Some b) = [])
   \<and> ((\<exists>c\<in>set b. c \<noteq> slash) \<longrightarrow>
        startsWith (normalizeBasePath (Some b)) ''/''
        \<and> \<not> hasDoubleSlash (normalizeBasePath (Some b))
        \<and> last (normalizeBasePath (Some b)) \<noteq> slash)
   \<and> normalizeBasePath (Some []) = []
   \<and> normalizeBasePath (Some ''/'') = []
   \<and> normalizeBasePath (Some ''foo'') = ''/foo''
   \<and> normalizeBasePath (Some ''/foo//bar/'') = ''/foo/bar''"
proof -
  have ex: "normalizeBasePath (Some []) = []" "normalizeBasePath (Some ''/'') = []"
    "normalizeBasePath (Some ''foo'') = ''/foo''"
    "normalizeBasePath (Some ''/foo//bar/'') = ''/foo/bar''"
    by (simp_all add: normalizeBasePath_def startsWith_def stripTrailingSlashes_def)
  have "normalizeBasePath None = []" by (simp add: normalizeBasePath_def)
  then show ?thesis
    using ex normalize_Some[of b] normalize_all_slash[of b] normalize_shape[of b] by blast
qed

text \<open>The amended statement at \<^verbatim>\<open>///\<close> and at \<^verbatim>\<open>a//b/\<close>.\<close>

theorem normalizeBasePath_amended_witness:
  "normalizeBasePath (Some ''///'') = []
   \<and> normalizeBasePath (Some ''a//b/'') = ''/a/b''
   \<and> startsWith (normalizeBasePath (Some ''a//b/'')) ''/''
   \<and> \<not> hasDoubleSlash (normalizeBasePath (Some ''a//b/''))
   \<and> last (normalizeBasePath (Some ''a//b/'')) \<noteq> slash"
proof -
  have s: "\<forall>c\<in>set ''///''. c = slash" by simp
  have n: "\<exists>c\<in>set ''a//b/''. c \<noteq> slash" by simp
  have v: "fromSegments (segments ''a//b/'') = ''/a/b''"
    by (simp add: fromSegments_def segments_def)
  show ?thesis
    using normalizeBasePath_amended[of "''///''"] normalizeBasePath_amended[of "''a//b/''"] s n v
    by (simp add: startsWith_def segments_def fromSegments_def)
qed

text \<open>
  Claim C4 as the specification states it fails at \<^verbatim>\<open>//\<close>: the input is neither
  empty nor \<^verbatim>\<open>/\<close>, and its result is the empty string, which starts with no slash.
\<close>

theorem normalizeBasePath_slashes_only:
  "''//'' \<noteq> [] \<and> ''//'' \<noteq> ''/''
   \<and> normalizeBasePath (Some ''//'') = []
   \<and> \<not> startsWith (normalizeBasePath (Some ''//'')) ''/''"
  by (simp add: normalizeBasePath_def startsWith_def stripTrailingSlashes_def)

text \<open>
  Claim C3.  The guard of a base that normalizes to the empty string accepts every
  pathname, the undefined one too.  For a non-empty normalized base \<open>B\<close> it accepts
  exactly the pathnames that equal \<open>B\<close> or start with \<open>B\<close> and a slash.  With base
  \<^verbatim>\<open>/app\<close> it accepts \<^verbatim>\<open>/app\<close> and \<^verbatim>\<open>/app/x\<close> and rejects \<^verbatim>\<open>/appx\<close> and
  \<^verbatim>\<open>/other\<close>.
\<close>

theorem createBasePathGuard_spec:
  "(normalizeBasePath base = [] \<longrightarrow> createBasePathGuard base pathname)
   \<and> (normalizeBasePath base \<noteq> [] \<longrightarrow>
        createBasePathGuard base pathname =
          (\<exists>p. pathname = Some p
               \<and> (p = normalizeBasePath base \<or> startsWith p (normalizeBasePath base @ ''/''))))
   \<and> createBasePathGuard (Some ''/app'') (Some ''/app'')
   \<and> createBasePathGuard (Some ''/app'') (Some ''/app/x'')
   \<and> \<not> createBasePathGuard (Some ''/app'') (Some ''/appx'')
   \<and> \<not> createBasePathGuard (Some ''/app'') (Some ''/other'')"
proof -
  have app: "normalizeBasePath (Some ''/app'') = ''/app''"
    by (simp add: normalizeBasePath_def startsWith_def stripTrailingSlashes_def)
  have empty: "normalizeBasePath base = [] \<longrightarrow> createBasePathGuard base pathname"
    by (simp add: createBasePathGuard_def)
  have nonempty: "normalizeBasePath base \<noteq> [] \<longrightarrow>
        createBasePathGuard base pathname =
          (\<exists>p. pathname = Some p
               \<and> (p = normalizeBasePath base \<or> startsWith p (normalizeBasePath base @ ''/'')))"
  proof
    assume ne: "normalizeBasePath base \<noteq> []"
    show "createBasePathGuard base pathname =
          (\<exists>p. pathname = Some p
               \<and> (p = normalizeBasePath base \<or> startsWith p (normalizeBasePath base @ ''/'')))"
    proof (cases pathname)
      case None
      then show ?thesis using ne by (simp add: createBasePathGuard_def Let_def)
    next
      case (Some p)
      have "startsWith p (normalizeBasePath base @ ''/'') \<Longrightarrow> p \<noteq> []"
        by (auto simp: startsWith_def)
      then show ?thesis using ne Some by (auto simp: createBasePathGuard_def Let_def)
    qed
  qed
  have ex: "createBasePathGuard (Some ''/app'') (Some ''/app'')"
    "createBasePathGuard (Some ''/app'') (Some ''/app/x'')"
    "\<not> createBasePathGuard (Some ''/app'') (Some ''/appx'')"
    "\<not> createBasePathGuard (Some ''/app'') (Some ''/other'')"
    by (simp_all add: createBasePathGuard_def app startsWith_def)
  show ?thesis using empty nonempty ex by blast
qed

text \<open>The guard at an absent base, at base \<^verbatim>\<open>/\<close> and at base \<^verbatim>\<open>api/\<close>.\<close>

theorem createBasePathGuard_spec_witness:
  "createBasePathGuard None (Some ''/anything'')
   \<and> createBasePathGuard (Some ''/'') None
   \<and> createBasePathGuard (Some ''api/'') (Some ''/api/users'')
   \<and> \<not> createBasePathGuard (Some ''api/'') (Some ''/apiary'')
   \<and> \<not> createBasePathGuard (Some ''api/'') None"
proof -
  have e: "normalizeBasePath None = []" "normalizeBasePath (Some ''/'') = []"
    by (simp_all add: normalizeBasePath_def)
  have n: "normalizeBasePath (Some ''api/'') = ''/api''"
    by (simp add: normalizeBasePath_def startsWith_def stripTrailingSlashes_def)
  then have n': "normalizeBasePath (Some ''api/'') \<noteq> []" by simp
  show ?thesis
    using createBasePathGuard_spec[of None "Some ''/anything''"]
      createBasePathGuard_spec[of "Some ''/''" None]
      createBasePathGuard_spec[of "Some ''api/''" "Some ''/api/users''"]
      createBasePathGuard_spec[of "Some ''api/''" "Some ''/apiary''"]
      createBasePathGuard_spec[of "Some ''api/''" None]
      e n' by (simp add: n startsWith_def)
qed

section \<open>The base-path rewriter\<close>

lemma startsWith_append: "startsWith s p \<longleftrightarrow> (\<exists>t. s = p @ t)"
  unfolding startsWith_def
  by (metis append_eq_conv_conj append_take_drop_id)

lemma rewrite_frame:
  "rq_method (rewriteRequestForBase base r) = rq_method r
   \<and> rq_headers (rewriteRequestForBase base r) = rq_headers r
   \<and> rq_body (rewriteRequestForBase base r) = rq_body r
   \<and> url_origin (rq_url (rewriteRequestForBase base r)) = url_origin (rq_url r)
   \<and> url_search (rq_url (rewriteRequestForBase base r)) = url_search (rq_url r)
   \<and> url_hash (rq_url (rewriteRequestForBase base r)) = url_hash (rq_url r)"
  by (simp add: rewriteRequestForBase_def createBasePathRewriter_def Let_def Request_from_def)

lemma rewrite_empty:
  "normalizeBasePath base = [] \<Longrightarrow>
     createBasePathRewriter base = None \<and> rewriteRequestForBase base r = r"
  by (simp add: rewriteRequestForBase_def createBasePathRewriter_def)

lemma rewrite_nonempty:
  assumes "normalizeBasePath base \<noteq> []"
  shows "\<exists>rewrite. createBasePathRewriter base = Some rewrite
           \<and> rewriteRequestForBase base r = rewrite r"
  using assms by (simp add: rewriteRequestForBase_def createBasePathRewriter_def Let_def)

lemma rewrite_equal:
  assumes "normalizeBasePath base \<noteq> []" "url_pathname (rq_url r) = normalizeBasePath base"
  shows "url_pathname (rq_url (rewriteRequestForBase base r)) = ''/''"
  using assms
  by (simp add: rewriteRequestForBase_def createBasePathRewriter_def Let_def Request_from_def)

lemma rewrite_prefix:
  assumes "normalizeBasePath base \<noteq> []"
    and "startsWith (url_pathname (rq_url r)) (normalizeBasePath base @ ''/'')"
  shows "url_pathname (rq_url (rewriteRequestForBase base r))
           = drop (length (normalizeBasePath base)) (url_pathname (rq_url r))
         \<and> normalizeBasePath base @ url_pathname (rq_url (rewriteRequestForBase base r))
           = url_pathname (rq_url r)
         \<and> startsWith (url_pathname (rq_url (rewriteRequestForBase base r))) ''/''"
proof -
  let ?B = "normalizeBasePath base"
  let ?p = "url_pathname (rq_url r)"
  obtain t where t: "?p = (?B @ ''/'') @ t" using assms(2) startsWith_append by blast
  then have ne: "?p \<noteq> ?B" by auto
  have d: "drop (length ?B) ?p = slash # t" using t by simp
  have "url_pathname (rq_url (rewriteRequestForBase base r)) = drop (length ?B) ?p"
    using assms ne d
    by (simp add: rewriteRequestForBase_def createBasePathRewriter_def Let_def
        Request_from_def slice_from_def)
  then show ?thesis using d t by (simp add: startsWith_def)
qed

lemma rewrite_other:
  assumes "normalizeBasePath base \<noteq> []"
    and "url_pathname (rq_url r) \<noteq> normalizeBasePath base"
    and "\<not> startsWith (url_pathname (rq_url r)) (normalizeBasePath base @ ''/'')"
  shows "rewriteRequestForBase base r = r"
  using assms
  by (simp add: rewriteRequestForBase_def createBasePathRewriter_def Let_def)

lemma normalize_app: "normalizeBasePath (Some ''/app'') = ''/app''"
  by (simp add: normalizeBasePath_def startsWith_def stripTrailingSlashes_def)

text \<open>
  Claim C2.  For a base that normalizes to the empty string no rewriter is built, and
  the middleware leaves the request as it is.  For a non-empty normalized base \<open>B\<close>:
  a request whose pathname is \<open>B\<close> gets the pathname \<^verbatim>\<open>/\<close>; a request whose
  pathname starts with \<open>B\<close> and a slash loses the prefix \<open>B\<close>, and what remains
  starts with a slash, so it is never empty; any other request is returned as it is.
  In every case the method, the headers and the body are those of the input, as are
  the origin, the query and the fragment of the URL.  With base \<^verbatim>\<open>/app\<close>, the path
  \<^verbatim>\<open>/app\<close> becomes \<^verbatim>\<open>/\<close>, \<^verbatim>\<open>/app/x\<close> becomes \<^verbatim>\<open>/x\<close>, and a request to
  \<^verbatim>\<open>/other\<close> is unchanged.
\<close>

theorem createBasePathRewriter_spec:
  "(normalizeBasePath base = [] \<longrightarrow>
      createBasePathRewriter base = None \<and> rewriteRequestForBase base r = r)
   \<and> (normalizeBasePath base \<noteq> [] \<longrightarrow>
        (\<exists>rewrite. createBasePathRewriter base = Some rewrite
           \<and> rewriteRequestForBase base r = rewrite r)
        \<and> (url_pathname (rq_url r) = normalizeBasePath base \<longrightarrow>
             url_pathname (rq_url (rewriteRequestForBase base r)) = ''/'')
        \<and> (startsWith (url_pathname (rq_url r)) (normalizeBasePath base @ ''/'') \<longrightarrow>
             url_pathname (rq_url (rewriteRequestForBase base r))
               = drop (length (normalizeBasePath base)) (url_pathname (rq_url r))
             \<and> normalizeBasePath base @ url_pathname (rq_url (rewriteRequestForBase base r))
               = url_pathname (rq_url r)
             \<and> startsWith (url_pathname (rq_url (rewriteRequestForBase base r))) ''/'')
        \<and> (url_pathname (rq_url r) \<noteq> normalizeBasePath base
             \<and> \<not> startsWith (url_pathname (rq_url r)) (normalizeBasePath base @ ''/'') \<longrightarrow>
             rewriteRequestForBase base r = r))
   \<and> rq_method (rewriteRequestForBase base r) = rq_method r
   \<and> rq_headers (rewriteRequestForBase base r) = rq_headers r
   \<and> rq_body (rewriteRequestForBase base r) = rq_body r
   \<and> url_origin (rq_url (rewriteRequestForBase base r)) = url_origin (rq_url r)
   \<and> url_search (rq_url (rewriteRequestForBase base r)) = url_search (rq_url r)
   \<and> url_hash (rq_url (rewriteRequestForBase base r)) = url_hash (rq_url r)
   \<and> url_pathname (rq_url (rewriteRequestForBase (Some ''/app'') (sample_request ''/app''))) = ''/''
   \<and> url_pathname (rq_url (rewriteRequestForBase (Some ''/app'') (sample_request ''/app/x''))) = ''/x''
   \<and> rewriteRequestForBase (Some ''/app'') (sample_request ''/other'') = sample_request ''/other''"
proof -
  have ex: "url_pathname (rq_url (rewriteRequestForBase (Some ''/app'') (sample_request ''/app''))) = ''/''"
    "url_pathname (rq_url (rewriteRequestForBase (Some ''/app'') (sample_request ''/app/x''))) = ''/x''"
    "rewriteRequestForBase (Some ''/app'') (sample_request ''/other'') = sample_request ''/other''"
    by (simp_all add: rewriteRequestForBase_def createBasePathRewriter_def normalize_app
        sample_request_def startsWith_def slice_from_def Request_from_def)
  show ?thesis
    using rewrite_empty[of base r] rewrite_nonempty[of base r] rewrite_equal[of base r]
      rewrite_prefix[of base r] rewrite_other[of base r] rewrite_frame[of base r] ex
    by blast
qed

text \<open>The rewriter at an absent base and at base \<^verbatim>\<open>api/\<close>.\<close>

theorem createBasePathRewriter_spec_witness:
  "rewriteRequestForBase None (sample_request ''/docs'') = sample_request ''/docs''
   \<and> url_pathname (rq_url (rewriteRequestForBase (Some ''api/'') (sample_request ''/api''))) = ''/''
   \<and> url_pathname (rq_url (rewriteRequestForBase (Some ''api/'') (sample_request ''/api/users/1'')))
       = ''/users/1''
   \<and> rewriteRequestForBase (Some ''api/'') (sample_request ''/apiary'') = sample_request ''/apiary''
   \<and> rq_method (rewriteRequestForBase (Some ''api/'') (sample_request ''/api/users/1'')) = ''POST''
   \<and> rq_body (rewriteRequestForBase (Some ''api/'') (sample_request ''/api/users/1'')) = Some ''hello''"
proof -
  have e: "normalizeBasePath None = []" by (simp add: normalizeBasePath_def)
  have n: "normalizeBasePath (Some ''api/'') = ''/api''"
    by (simp add: normalizeBasePath_def startsWith_def stripTrailingSlashes_def)
  have p: "url_pathname (rq_url (sample_request q)) = q" "rq_method (sample_request q) = ''POST''"
    "rq_body (sample_request q) = Some ''hello''" for q
    by (simp_all add: sample_request_def)
  show ?thesis
    using createBasePathRewriter_spec[of None "sample_request ''/docs''"]
      createBasePathRewriter_spec[of "Some ''api/''" "sample_request ''/api''"]
      createBasePathRewriter_spec[of "Some ''api/''" "sample_request ''/api/users/1''"]
      createBasePathRewriter_spec[of "Some ''api/''" "sample_request ''/apiary''"]
    by (simp add: e n p startsWith_def)
qed

section \<open>The rebuild cycle\<close>

lemma filter_remove1_length:
  "x \<in> set xs \<Longrightarrow>
     length (filter P (remove1 x xs)) = length (filter P xs) - (if P x then 1 else 0)"
proof (induction xs)
  case (Cons a xs)
  have pos: "x \<in> set xs \<Longrightarrow> P x \<Longrightarrow> 0 < length (filter P xs)"
    by (auto simp: filter_empty_conv)
  show ?case using Cons pos by (cases "x = a") auto
qed simp

lemma active_frame [simp]:
  "active (s\<lparr>mf := m\<rparr>) = active s"
  "active (s\<lparr>reloadsSent := k\<rparr>) = active s"
  "inflight (s\<lparr>mf := m\<rparr>) = inflight s"
  "inflight (s\<lparr>reloadsSent := k\<rparr>) = inflight s"
  by (simp_all add: active_def inflight_def)

lemma inflight_le_active: "inflight s \<le> active s"
proof -
  have "length (filter (\<lambda>t. t = AwaitBuild) xs) \<le> length (filter (\<lambda>t. t \<noteq> AwaitNested) xs)"
    for xs :: "pc list"
    by (induction xs) auto
  then show ?thesis by (simp add: inflight_def active_def)
qed

lemma active_pos: "t \<in> set (suspended s) \<Longrightarrow> t \<noteq> AwaitNested \<Longrightarrow> 0 < active s"
  by (auto simp: active_def filter_empty_conv)

lemma inflight_pos: "AwaitBuild \<in> set (suspended s) \<longleftrightarrow> 0 < inflight s"
  by (auto simp: inflight_def filter_empty_conv)

lemma inv_initial: "rebuild_inv (initial_state dir vbase ps)"
  by (simp add: rebuild_inv_def initial_state_def active_def)

lemma inv_rebuildWorker: "rebuild_inv s \<Longrightarrow> rebuild_inv (rebuildWorker s)"
  by (auto simp: rebuild_inv_def rebuildWorker_def active_def)

text \<open>
  The \<^verbatim>\<open>finally\<close> block, entered when the call that held the flag has left its
  \<^verbatim>\<open>await\<close>: no other call is active.
\<close>

lemma finally_effect:
  assumes "active s = 0"
  shows "rebuild_inv (rebuildFinally s)
         \<and> \<not> buildQueued (rebuildFinally s)
         \<and> (if buildQueued s
             then buildInProgress (rebuildFinally s)
                  \<and> buildsStarted (rebuildFinally s) = Suc (buildsStarted s)
                  \<and> inflight (rebuildFinally s) = Suc (inflight s)
             else \<not> buildInProgress (rebuildFinally s)
                  \<and> buildsStarted (rebuildFinally s) = buildsStarted s
                  \<and> inflight (rebuildFinally s) = inflight s)"
  using assms
  by (auto simp: rebuild_inv_def rebuildFinally_def rebuildWorker_def active_def inflight_def
      Let_def)

lemma resume_active:
  assumes "rebuild_inv s" "t \<in> set (suspended s)" "t \<noteq> AwaitNested"
  shows "buildInProgress s \<and> active (s\<lparr>suspended := remove1 t (suspended s)\<rparr>) = 0"
proof -
  have "0 < active s" using assms(2,3) by (rule active_pos)
  then have b: "buildInProgress s" and one: "active s = 1"
    using assms(1) by (auto simp: rebuild_inv_def split: if_splits)
  have "active (s\<lparr>suspended := remove1 t (suspended s)\<rparr>) = active s - 1"
    using assms(2,3) by (simp add: active_def filter_remove1_length)
  then show ?thesis using b one by simp
qed

lemma resume_inflight:
  assumes "rebuild_inv s" "t \<in> set (suspended s)" "t \<noteq> AwaitNested"
  shows "inflight (s\<lparr>suspended := remove1 t (suspended s)\<rparr>) = 0"
proof -
  have "inflight (s\<lparr>suspended := remove1 t (suspended s)\<rparr>)
          \<le> active (s\<lparr>suspended := remove1 t (suspended s)\<rparr>)"
    by (rule inflight_le_active)
  then show ?thesis using resume_active[OF assms] by simp
qed

lemma inv_step:
  assumes "rebuild_inv s" "rebuild_step e s = Some s'"
  shows "rebuild_inv s'"
proof (cases e)
  case Call
  then show ?thesis using assms inv_rebuildWorker by auto
next
  case (BuildSettled r ctor)
  let ?s0 = "s\<lparr>suspended := remove1 AwaitBuild (suspended s)\<rparr>"
  have en: "AwaitBuild \<in> set (suspended s)"
    using assms(2) BuildSettled by (auto split: if_splits)
  have a0: "buildInProgress s" "active ?s0 = 0"
    using resume_active[OF assms(1) en] by simp_all
  have f: "rebuild_inv (rebuildFinally (?s0\<lparr>mf := m, reloadsSent := k\<rparr>))" for m k
    using finally_effect[of "?s0\<lparr>mf := m, reloadsSent := k\<rparr>"] a0(2) by simp
  have f0: "rebuild_inv (rebuildFinally ?s0)" using finally_effect[of ?s0] a0(2) by simp
  have g: "rebuild_inv (?s0\<lparr>suspended := AwaitSetOptions # suspended ?s0\<rparr>)"
    using a0 assms(1) by (simp add: rebuild_inv_def active_def)
  show ?thesis
    using assms(2) BuildSettled en f f0 g
    by (auto simp: Let_def split: settled.splits option.splits)
next
  case (SetOptionsSettled r)
  let ?s0 = "s\<lparr>suspended := remove1 AwaitSetOptions (suspended s)\<rparr>"
  have en: "AwaitSetOptions \<in> set (suspended s)"
    using assms(2) SetOptionsSettled by (auto split: if_splits)
  have a0: "active ?s0 = 0" using resume_active[OF assms(1) en] by simp
  have f: "rebuild_inv (rebuildFinally (?s0\<lparr>reloadsSent := k\<rparr>))" for k
    using finally_effect[of "?s0\<lparr>reloadsSent := k\<rparr>"] a0 by simp
  have f0: "rebuild_inv (rebuildFinally ?s0)" using finally_effect[of ?s0] a0 by simp
  show ?thesis
    using assms(2) SetOptionsSettled en f f0
    by (auto simp: Let_def split: settled.splits)
next
  case NestedSettled
  have en: "AwaitNested \<in> set (suspended s)"
    using assms(2) NestedSettled by (auto split: if_splits)
  have "active (s\<lparr>suspended := remove1 AwaitNested (suspended s)\<rparr>) = active s"
    using en by (simp add: active_def filter_remove1_length)
  then show ?thesis
    using assms NestedSettled en by (auto simp: rebuild_inv_def)
qed

lemma inv_run:
  "rebuild_inv s0 \<Longrightarrow> rebuild_run es s0 = Some s \<Longrightarrow> rebuild_inv s"
proof (induction es arbitrary: s0)
  case Nil
  then show ?case by simp
next
  case (Cons e es)
  then obtain s1 where s1: "rebuild_step e s0 = Some s1" "rebuild_run es s1 = Some s"
    by (auto split: option.splits)
  then show ?case using Cons.IH inv_step[OF Cons.prems(1) s1(1)] by blast
qed

lemma inv_reachable:
  "rebuild_run es (initial_state dir vbase ps) = Some s \<Longrightarrow> rebuild_inv s"
  using inv_run inv_initial by blast

lemma inv_inflight: "rebuild_inv s \<Longrightarrow> inflight s \<le> 1 \<and> (0 < inflight s \<longrightarrow> buildInProgress s)"
  using inflight_le_active[of s] by (auto simp: rebuild_inv_def split: if_splits)

lemma calls_coalesce:
  assumes "buildInProgress s"
  shows "rebuild_step Call s = Some (s\<lparr>buildQueued := True\<rparr>)"
    and "0 < n \<Longrightarrow> rebuild_run (replicate n Call) s = Some (s\<lparr>buildQueued := True\<rparr>)"
proof -
  show one: "rebuild_step Call s = Some (s\<lparr>buildQueued := True\<rparr>)"
    using assms by (simp add: rebuildWorker_def)
  have "rebuild_run (replicate n Call) (s\<lparr>buildQueued := True\<rparr>) = Some (s\<lparr>buildQueued := True\<rparr>)"
    for n
    using assms by (induction n) (simp_all add: rebuildWorker_def)
  then show "0 < n \<Longrightarrow> rebuild_run (replicate n Call) s = Some (s\<lparr>buildQueued := True\<rparr>)"
    using one by (cases n) simp_all
qed

lemma cycle_end:
  assumes "rebuild_inv s" "endsCycle e s"
  shows "\<exists>s'. rebuild_step e s = Some s'
           \<and> \<not> buildQueued s'
           \<and> (if buildQueued s
               then buildInProgress s' \<and> buildsStarted s' = Suc (buildsStarted s) \<and> inflight s' = 1
               else \<not> buildInProgress s' \<and> buildsStarted s' = buildsStarted s \<and> inflight s' = 0)"
proof (cases e)
  case Call
  then show ?thesis using assms(2) by simp
next
  case NestedSettled
  then show ?thesis using assms(2) by simp
next
  case (BuildSettled r ctor)
  let ?s0 = "s\<lparr>suspended := remove1 AwaitBuild (suspended s)\<rparr>"
  have en: "AwaitBuild \<in> set (suspended s)" and c: "r = Rejected \<or> mf s = None"
    using assms(2) BuildSettled by auto
  have a0: "active ?s0 = 0" using resume_active[OF assms(1) en] by simp
  have i0: "inflight ?s0 = 0" using resume_inflight[OF assms(1) en] by simp
  have f: "\<not> buildQueued (rebuildFinally (?s0\<lparr>mf := m, reloadsSent := k\<rparr>))
         \<and> (if buildQueued s
             then buildInProgress (rebuildFinally (?s0\<lparr>mf := m, reloadsSent := k\<rparr>))
                  \<and> buildsStarted (rebuildFinally (?s0\<lparr>mf := m, reloadsSent := k\<rparr>)) = Suc (buildsStarted s)
                  \<and> inflight (rebuildFinally (?s0\<lparr>mf := m, reloadsSent := k\<rparr>)) = 1
             else \<not> buildInProgress (rebuildFinally (?s0\<lparr>mf := m, reloadsSent := k\<rparr>))
                  \<and> buildsStarted (rebuildFinally (?s0\<lparr>mf := m, reloadsSent := k\<rparr>)) = buildsStarted s
                  \<and> inflight (rebuildFinally (?s0\<lparr>mf := m, reloadsSent := k\<rparr>)) = 0)" for m k
    using finally_effect[of "?s0\<lparr>mf := m, reloadsSent := k\<rparr>"] a0 i0
    by simp
  have f0: "\<not> buildQueued (rebuildFinally ?s0)
         \<and> (if buildQueued s
             then buildInProgress (rebuildFinally ?s0)
                  \<and> buildsStarted (rebuildFinally ?s0) = Suc (buildsStarted s)
                  \<and> inflight (rebuildFinally ?s0) = 1
             else \<not> buildInProgress (rebuildFinally ?s0)
                  \<and> buildsStarted (rebuildFinally ?s0) = buildsStarted s
                  \<and> inflight (rebuildFinally ?s0) = 0)"
    using finally_effect[of ?s0] a0 i0 by simp
  show ?thesis
  proof (cases r)
    case Rejected
    then show ?thesis using BuildSettled en f0 by (simp add: Let_def)
  next
    case Fulfilled
    then have m: "mf s = None" using c by simp
    show ?thesis
    proof (cases ctor)
      case None
      then show ?thesis using BuildSettled Fulfilled en m f0 by (simp add: Let_def)
    next
      case (Some x)
      then show ?thesis
        using BuildSettled Fulfilled en m f[where m="Some x" and k="Suc (reloadsSent s)"]
        by (simp add: Let_def)
    qed
  qed
next
  case (SetOptionsSettled r)
  let ?s0 = "s\<lparr>suspended := remove1 AwaitSetOptions (suspended s)\<rparr>"
  have en: "AwaitSetOptions \<in> set (suspended s)"
    using assms(2) SetOptionsSettled by auto
  have a0: "active ?s0 = 0" using resume_active[OF assms(1) en] by simp
  have i0: "inflight ?s0 = 0" using resume_inflight[OF assms(1) en] by simp
  have f: "\<not> buildQueued (rebuildFinally (?s0\<lparr>reloadsSent := k\<rparr>))
         \<and> (if buildQueued s
             then buildInProgress (rebuildFinally (?s0\<lparr>reloadsSent := k\<rparr>))
                  \<and> buildsStarted (rebuildFinally (?s0\<lparr>reloadsSent := k\<rparr>)) = Suc (buildsStarted s)
                  \<and> inflight (rebuildFinally (?s0\<lparr>reloadsSent := k\<rparr>)) = 1
             else \<not> buildInProgress (rebuildFinally (?s0\<lparr>reloadsSent := k\<rparr>))
                  \<and> buildsStarted (rebuildFinally (?s0\<lparr>reloadsSent := k\<rparr>)) = buildsStarted s
                  \<and> inflight (rebuildFinally (?s0\<lparr>reloadsSent := k\<rparr>)) = 0)" for k
    using finally_effect[of "?s0\<lparr>reloadsSent := k\<rparr>"] a0 i0
    by simp
  show ?thesis
  proof (cases r)
    case Rejected
    have f0: "\<not> buildQueued (rebuildFinally ?s0)
         \<and> (if buildQueued s
             then buildInProgress (rebuildFinally ?s0)
                  \<and> buildsStarted (rebuildFinally ?s0) = Suc (buildsStarted s)
                  \<and> inflight (rebuildFinally ?s0) = 1
             else \<not> buildInProgress (rebuildFinally ?s0)
                  \<and> buildsStarted (rebuildFinally ?s0) = buildsStarted s
                  \<and> inflight (rebuildFinally ?s0) = 0)"
      using finally_effect[of ?s0] a0 i0 by simp
    show ?thesis using Rejected SetOptionsSettled en f0 by (simp add: Let_def)
  next
    case Fulfilled
    then show ?thesis
      using SetOptionsSettled en f[of "Suc (reloadsSent s)"] by (simp add: Let_def)
  qed
qed

lemma build_then_reconfigure:
  assumes "rebuild_inv s" "AwaitBuild \<in> set (suspended s)" "mf s \<noteq> None"
  shows "\<exists>s'. rebuild_step (BuildSettled Fulfilled ctor) s = Some s'
           \<and> buildInProgress s' \<and> inflight s' = 0
           \<and> buildQueued s' = buildQueued s \<and> buildsStarted s' = buildsStarted s
           \<and> endsCycle (SetOptionsSettled r) s'"
proof -
  have b: "buildInProgress s" using resume_active[OF assms(1,2)] by simp
  have i0: "inflight (s\<lparr>suspended := remove1 AwaitBuild (suspended s)\<rparr>) = 0"
    using resume_inflight[OF assms(1,2)] by simp
  show ?thesis using assms(2,3) b i0 by (auto simp: Let_def inflight_def)
qed

lemma call_starts:
  assumes "\<not> buildInProgress s"
  shows "rebuild_step Call s
           = Some (s\<lparr>buildInProgress := True, suspended := AwaitBuild # suspended s,
                     buildsStarted := Suc (buildsStarted s)\<rparr>)"
  using assms by (simp add: rebuildWorker_def)

text \<open>
  Claim C1.  The invariant of the rebuild cycle (the in-progress flag is set exactly
  when one call is suspended at the build or at the reconfiguration, and a rebuild is
  queued only while the flag is set) holds in the plugin's initial state and is kept
  by every step, so it holds in every state that calls and settled promises can
  reach, in any order.  Under the invariant at most one bundler invocation is in
  flight, and while one is in flight the in-progress flag is set and the build may
  fail.  In any state:
  a call of \<^verbatim>\<open>rebuildWorker\<close> while the flag is clear sets the flag and starts one
  build, which it awaits;
  a call while the flag is set only sets the queued flag (no build is started,
  nothing is suspended), and so do any number of calls.
  Under the invariant, an event that ends the cycle of the in-flight build (the build
  fails, the build succeeds and the emulator is created, or the reconfiguration of
  the emulator settles) is enabled, and after it the queued flag is clear and, if a
  rebuild was queued, exactly one more build has been started and is in flight, with
  the in-progress flag set for it, and otherwise the flag is clear and no build has
  been started; a successful build with an existing emulator leaves the flag set and
  leads to the reconfiguration, whose settling ends the cycle.
\<close>

theorem rebuild_coalescing:
  "rebuild_inv (initial_state dir vbase ps)
   \<and> (rebuild_inv s \<and> rebuild_step e s = Some s' \<longrightarrow> rebuild_inv s')
   \<and> (rebuild_run es (initial_state dir vbase ps) = Some s \<longrightarrow> rebuild_inv s)
   \<and> (rebuild_inv s \<longrightarrow>
        inflight s \<le> 1
        \<and> (0 < inflight s \<longrightarrow> buildInProgress s \<and> endsCycle (BuildSettled Rejected ctor) s))
   \<and> (\<not> buildInProgress s \<longrightarrow>
        rebuild_step Call s
          = Some (s\<lparr>buildInProgress := True, suspended := AwaitBuild # suspended s,
                    buildsStarted := Suc (buildsStarted s)\<rparr>))
   \<and> (buildInProgress s \<longrightarrow> rebuild_step Call s = Some (s\<lparr>buildQueued := True\<rparr>))
   \<and> (buildInProgress s \<and> 0 < n \<longrightarrow>
        rebuild_run (replicate n Call) s = Some (s\<lparr>buildQueued := True\<rparr>))
   \<and> (rebuild_inv s \<and> endsCycle e s \<longrightarrow>
        (\<exists>t. rebuild_step e s = Some t
           \<and> \<not> buildQueued t
           \<and> (if buildQueued s
               then buildInProgress t \<and> buildsStarted t = Suc (buildsStarted s)
                    \<and> inflight t = 1
               else \<not> buildInProgress t \<and> buildsStarted t = buildsStarted s
                    \<and> inflight t = 0)))
   \<and> (rebuild_inv s \<and> 0 < inflight s \<and> mf s \<noteq> None \<longrightarrow>
        (\<exists>t. rebuild_step (BuildSettled Fulfilled ctor) s = Some t
           \<and> buildInProgress t \<and> inflight t = 0
           \<and> buildQueued t = buildQueued s \<and> buildsStarted t = buildsStarted s
           \<and> endsCycle (SetOptionsSettled r) t))"
proof -
  have a: "rebuild_inv (initial_state dir vbase ps)" by (rule inv_initial)
  have b: "rebuild_inv s \<and> rebuild_step e s = Some s' \<longrightarrow> rebuild_inv s'"
    using inv_step by blast
  have c: "rebuild_run es (initial_state dir vbase ps) = Some s \<longrightarrow> rebuild_inv s"
    using inv_reachable by blast
  have d: "rebuild_inv s \<longrightarrow>
        inflight s \<le> 1
        \<and> (0 < inflight s \<longrightarrow> buildInProgress s \<and> endsCycle (BuildSettled Rejected ctor) s)"
    using inv_inflight[of s] by (simp add: inflight_pos)
  have e: "\<not> buildInProgress s \<longrightarrow>
        rebuild_step Call s
          = Some (s\<lparr>buildInProgress := True, suspended := AwaitBuild # suspended s,
                    buildsStarted := Suc (buildsStarted s)\<rparr>)"
    using call_starts by blast
  have f: "buildInProgress s \<longrightarrow> rebuild_step Call s = Some (s\<lparr>buildQueued := True\<rparr>)"
    using calls_coalesce(1) by blast
  have g: "buildInProgress s \<and> 0 < n \<longrightarrow>
          rebuild_run (replicate n Call) s = Some (s\<lparr>buildQueued := True\<rparr>)"
    using calls_coalesce(2) by blast
  have h: "rebuild_inv s \<and> endsCycle e s \<longrightarrow>
        (\<exists>t. rebuild_step e s = Some t
           \<and> \<not> buildQueued t
           \<and> (if buildQueued s
               then buildInProgress t \<and> buildsStarted t = Suc (buildsStarted s)
                    \<and> inflight t = 1
               else \<not> buildInProgress t \<and> buildsStarted t = buildsStarted s
                    \<and> inflight t = 0))"
    using cycle_end by blast
  have i: "rebuild_inv s \<and> 0 < inflight s \<and> mf s \<noteq> None \<longrightarrow>
        (\<exists>t. rebuild_step (BuildSettled Fulfilled ctor) s = Some t
           \<and> buildInProgress t \<and> inflight t = 0
           \<and> buildQueued t = buildQueued s \<and> buildsStarted t = buildsStarted s
           \<and> endsCycle (SetOptionsSettled r) t)"
    using build_then_reconfigure inflight_pos by blast
  show ?thesis using a b c d e f g h i by blast
qed

text \<open>
  A project with the public directory \<^verbatim>\<open>/srv/public\<close>.  The first call starts a
  build; after three calls in a row one build is in flight and a rebuild is queued;
  two more calls change nothing; when the build fails, the second build starts.
  After a single call, a failed build leaves the cycle idle.
\<close>

theorem rebuild_coalescing_witness:
  "rebuild_step Call (initial_state ''/srv/public'' ''/'' [])
     = Some (building_queued\<lparr>buildQueued := False\<rparr>)
   \<and> rebuild_run [Call, Call, Call] (initial_state ''/srv/public'' ''/'' [])
       = Some building_queued
   \<and> rebuild_inv building_queued
   \<and> inflight building_queued \<le> 1
   \<and> buildInProgress building_queued
   \<and> rebuild_run (replicate 2 Call) building_queued = Some building_queued
   \<and> (\<exists>t. rebuild_step (BuildSettled Rejected None) building_queued = Some t
          \<and> rebuild_inv t
          \<and> buildInProgress t \<and> \<not> buildQueued t \<and> buildsStarted t = 2 \<and> inflight t = 1)
   \<and> (\<exists>t. rebuild_step (BuildSettled Rejected None) (building_queued\<lparr>buildQueued := False\<rparr>)
            = Some t
          \<and> \<not> buildInProgress t \<and> buildsStarted t = 1 \<and> inflight t = 0)"
proof -
  let ?init = "initial_state ''/srv/public'' ''/'' []"
  let ?alone = "building_queued\<lparr>buildQueued := False\<rparr>"
  let ?fail = "BuildSettled Rejected None"
  have idle: "\<not> buildInProgress ?init" by (simp add: initial_state_def)
  have first: "?init\<lparr>buildInProgress := True, suspended := AwaitBuild # suspended ?init,
                      buildsStarted := Suc (buildsStarted ?init)\<rparr> = ?alone"
    by (simp add: initial_state_def building_queued_def)
  have c1: "rebuild_step Call ?init = Some ?alone"
    using rebuild_coalescing[of "''/srv/public''" "''/''" "[]" ?init Call ?init "[]" None 1 Fulfilled]
      idle first by simp
  have busy: "buildInProgress ?alone" "buildInProgress building_queued"
    "?alone\<lparr>buildQueued := True\<rparr> = building_queued"
    "building_queued\<lparr>buildQueued := True\<rparr> = building_queued"
    by (simp_all add: building_queued_def initial_state_def)
  have c2: "rebuild_run (replicate 2 Call) ?alone = Some building_queued"
    using rebuild_coalescing[of "''/srv/public''" "''/''" "[]" ?alone Call ?alone "[]" None 2 Fulfilled]
      busy by simp
  have r3: "rebuild_run [Call, Call, Call] ?init = Some building_queued"
    using c1 c2 by (simp add: numeral_2_eq_2)
  have r1: "rebuild_run [Call] ?init = Some ?alone" using c1 by simp
  note q = rebuild_coalescing[of "''/srv/public''" "''/''" "[]" building_queued ?fail _
      "[Call, Call, Call]" None 2 Fulfilled]
  note o = rebuild_coalescing[of "''/srv/public''" "''/''" "[]" ?alone ?fail _
      "[Call]" None 2 Fulfilled]
  have iq: "rebuild_inv building_queued" using q r3 by blast
  have io: "rebuild_inv ?alone" using o r1 by blast
  have p: "buildQueued building_queued" "buildsStarted building_queued = 1"
    "\<not> buildQueued ?alone" "buildsStarted ?alone = 1"
    by (simp_all add: building_queued_def initial_state_def)
  have en: "endsCycle ?fail building_queued" "endsCycle ?fail ?alone"
    by (simp_all add: building_queued_def)
  have le: "inflight building_queued \<le> 1" using q iq by blast
  have c3: "rebuild_run (replicate 2 Call) building_queued = Some building_queued"
    using q busy by simp
  obtain t where t: "rebuild_step ?fail building_queued = Some t" "\<not> buildQueued t"
    "buildInProgress t" "buildsStarted t = 2" "inflight t = 1"
    using q iq en(1) p(1,2) by auto
  have it: "rebuild_inv t"
    using rebuild_coalescing[of "''/srv/public''" "''/''" "[]" building_queued ?fail t
      "[Call, Call, Call]" None 2 Fulfilled] iq t(1) by blast
  obtain v where v: "rebuild_step ?fail ?alone = Some v"
    "\<not> buildInProgress v" "buildsStarted v = 1" "inflight v = 0"
    using o io en(2) p(3,4) by auto
  show ?thesis using c1 r3 iq le busy(2) c3 t it v by blast
qed

section \<open>Patterns\<close>

lemma regexp_test_unflagged:
  assumes "\<not> re_global r" "\<not> re_sticky r"
  shows "regexp_test r t = (patternMatches pf (RegExp r) t, r)"
  using assms by (simp add: regexp_test_def re_search_def)

lemma matchPattern_unflagged:
  "unflagged x \<Longrightarrow> matchPattern pf x t = (patternMatches pf x t, x)"
proof (cases x)
  case (RegExp r)
  assume "unflagged x"
  then have "regexp_test r t = (patternMatches pf (RegExp r) t, r)"
    using RegExp regexp_test_unflagged by simp
  then show ?thesis using RegExp by (simp del: patternMatches.simps)
next
  case (Glob g)
  then show ?thesis by simp
qed

lemma somePattern_unflagged:
  "\<forall>x\<in>set P. unflagged x \<Longrightarrow>
     somePattern pf P t = ((\<exists>x\<in>set P. patternMatches pf x t), P)"
proof (induction P)
  case Nil
  then show ?case by simp
next
  case (Cons x P)
  have m: "matchPattern pf x t = (patternMatches pf x t, x)"
    using Cons.prems by (simp add: matchPattern_unflagged)
  have ih: "somePattern pf P t = ((\<exists>x\<in>set P. patternMatches pf x t), P)"
    using Cons by simp
  show ?case by (simp add: m ih)
qed

text \<open>
  Claim C8, as amended.  On a list of patterns none of which is a regular expression
  with the \<^verbatim>\<open>g\<close> or the \<^verbatim>\<open>y\<close> flag, the matcher returns true exactly when some
  element matches the path under the rule of its kind, and it leaves the patterns as
  they are; \<^verbatim>\<open>shouldIgnorePath\<close> does so on the normalized path.  On the empty list
  the result is false.
\<close>

theorem somePattern_spec:
  "((\<forall>x\<in>set P. unflagged x) \<longrightarrow>
      somePattern pf P t = ((\<exists>x\<in>set P. patternMatches pf x t), P)
      \<and> shouldIgnorePath pf f P = ((\<exists>x\<in>set P. patternMatches pf x (normalizePath pf f)), P))
   \<and> somePattern pf [] t = (False, [])
   \<and> shouldIgnorePath pf f [] = (False, [])"
  using somePattern_unflagged[of P pf t] somePattern_unflagged[of P pf "normalizePath pf f"]
  by (simp add: shouldIgnorePath_def)

text \<open>
  The patterns \<^verbatim>\<open>/\.css$/\<close> and the glob \<^verbatim>\<open>/favicon.ico\<close>: a style sheet and the
  icon match, a script does not, and the patterns are unchanged.
\<close>

theorem somePattern_spec_witness:
  "somePattern sample_platform [RegExp (css_global\<lparr>re_global := False\<rparr>), Glob ''/favicon.ico'']
       ''/a.css''
     = (True, [RegExp (css_global\<lparr>re_global := False\<rparr>), Glob ''/favicon.ico''])
   \<and> shouldIgnorePath sample_platform ''/favicon.ico''
       [RegExp (css_global\<lparr>re_global := False\<rparr>), Glob ''/favicon.ico'']
     = (True, [RegExp (css_global\<lparr>re_global := False\<rparr>), Glob ''/favicon.ico''])
   \<and> somePattern sample_platform [RegExp (css_global\<lparr>re_global := False\<rparr>), Glob ''/favicon.ico'']
       ''/a.js''
     = (False, [RegExp (css_global\<lparr>re_global := False\<rparr>), Glob ''/favicon.ico''])"
proof -
  let ?P = "[RegExp (css_global\<lparr>re_global := False\<rparr>), Glob ''/favicon.ico'']"
  have u: "\<forall>x\<in>set ?P. unflagged x" by (simp add: css_global_def)
  have m: "(\<exists>x\<in>set ?P. patternMatches sample_platform x ''/a.css'')"
    "(\<exists>x\<in>set ?P. patternMatches sample_platform x (normalizePath sample_platform ''/favicon.ico''))"
    "\<not> (\<exists>x\<in>set ?P. patternMatches sample_platform x ''/a.js'')"
    by (simp_all add: css_global_def css_matcher_def sample_platform_def upt_rec)
  show ?thesis
    using somePattern_spec[of ?P sample_platform "''/a.css''" "''/favicon.ico''"]
      somePattern_spec[of ?P sample_platform "''/a.js''" "''/favicon.ico''"] u m
    by simp
qed

text \<open>
  Claim C8 as the specification states it fails for \<^verbatim>\<open>/\.css$/g\<close>: the first test of
  \<^verbatim>\<open>/a.css\<close> is true and moves \<^verbatim>\<open>lastIndex\<close> of the pattern to 6; the second
  test of the same path with the same list is false, although the pattern matches
  the path.
\<close>

theorem somePattern_global_flag:
  "shouldIgnorePath sample_platform ''/a.css'' [RegExp css_global]
     = (True, [RegExp (css_global\<lparr>re_lastIndex := 6\<rparr>)])
   \<and> shouldIgnorePath sample_platform ''/a.css'' [RegExp (css_global\<lparr>re_lastIndex := 6\<rparr>)]
     = (False, [RegExp css_global])
   \<and> patternMatches sample_platform (RegExp css_global) ''/a.css''"
  by (simp add: shouldIgnorePath_def sample_platform_def regexp_test_def re_search_def
      css_global_def css_matcher_def upt_rec)

section \<open>The middleware\<close>

lemma middleware_no_url:
  "in_url req = None \<or> in_url req = Some [] \<Longrightarrow>
     middleware pf opts st req res = ([CallNext], excludePatterns st)"
  by (auto simp: middleware_def split: option.splits)

lemma middleware_no_mf:
  "mf st = None \<Longrightarrow> middleware pf opts st req res = ([CallNext], excludePatterns st)"
  by (auto simp: middleware_def split: option.splits)

text \<open>
  Claim C10.  A request that arrives while no emulator exists, or whose URL is absent
  (undefined or empty), is passed to the next handler at once: the run of the
  middleware consists of the one call \<^verbatim>\<open>next()\<close>, with no error, no request handed to
  an emulator and no pattern tested.  No emulator exists in the plugin's initial
  state.
\<close>

theorem middleware_entry_check:
  "((mf st = None \<or> in_url req = None \<or> in_url req = Some [])
      \<longrightarrow> middleware pf opts st req res = ([CallNext], excludePatterns st))
   \<and> mf (initial_state dir vbase ps) = None"
  using middleware_no_url[of req pf opts st res] middleware_no_mf[of st pf opts req res]
  by (auto simp: initial_state_def)

text \<open>
  Before the first build, a request to \<^verbatim>\<open>/api\<close>; and with an emulator, a request
  without a URL.
\<close>

theorem middleware_entry_check_witness:
  "middleware sample_platform \<lparr>opt_base = None, opt_injectClientScript = None\<rparr>
       (initial_state ''/srv/public'' ''/'' []) (sample_incoming ''GET'' (Some ''/api'') []) fresh_res
     = ([CallNext], [])
   \<and> middleware sample_platform \<lparr>opt_base = None, opt_injectClientScript = None\<rparr>
       (serving_state []) (sample_incoming ''GET'' None []) fresh_res
     = ([CallNext], [])"
proof -
  have a: "mf (initial_state ''/srv/public'' ''/'' []) = None"
    "excludePatterns (initial_state ''/srv/public'' ''/'' []) = []"
    by (simp_all add: initial_state_def)
  have b: "in_url (sample_incoming ''GET'' None []) = None"
    "excludePatterns (serving_state []) = []"
    by (simp_all add: sample_incoming_def serving_state_def initial_state_def)
  show ?thesis
    using middleware_entry_check[of "initial_state ''/srv/public'' ''/'' []"
        "sample_incoming ''GET'' (Some ''/api'') []" sample_platform
        "\<lparr>opt_base = None, opt_injectClientScript = None\<rparr>" fresh_res]
      middleware_entry_check[of "serving_state []" "sample_incoming ''GET'' None []"
        sample_platform "\<lparr>opt_base = None, opt_injectClientScript = None\<rparr>" fresh_res]
      a b
    by simp
qed

lemma guard_undefined:
  "createBasePathGuard base None = (normalizeBasePath base = [])"
  by (simp add: createBasePathGuard_def Let_def)

lemma publicFile_unparseable:
  "safeParseUrlPath pf u = None \<Longrightarrow> \<not> publicFileExists pf d u"
  by (simp add: publicFileExists_def)

lemma middleware_unparseable_nonempty:
  assumes "normalizeBasePath (opt_base opts) \<noteq> []" "in_url req = Some u"
    "safeParseUrlPath pf u = None"
  shows "fst (middleware pf opts st req res) = [CallNext]"
  using assms
  by (auto simp: middleware_def guard_undefined publicFile_unparseable
      split: option.splits prod.splits)

lemma middleware_unparseable_empty:
  assumes "normalizeBasePath (opt_base opts) = []" "in_url req = Some u" "u \<noteq> []"
    "mf st = Some m" "safeParseUrlPath pf u = None"
    "\<not> fst (somePattern pf (excludePatterns st) u)"
  shows "fst (middleware pf opts st req res) = workerPipeline pf opts (viteBase st) m req res"
  using assms
  by (auto simp: middleware_def guard_undefined publicFile_unparseable
      split: option.splits prod.splits)

text \<open>
  Claim C9, as amended.  Parsing the path of a URL never throws: the result is the
  pathname of the parsed URL, and it is undefined exactly when the URL constructor
  rejects the input.  When the configured base normalizes to a non-empty string, a
  request whose path does not parse is passed to the next handler: the run of the
  middleware is the one call \<^verbatim>\<open>next()\<close>.  When the base normalizes to the empty
  string the guard accepts the undefined pathname as well, and the request, unless a
  pattern excludes it, goes on to the worker pipeline.
\<close>

theorem unparseable_path_spec:
  "safeParseUrlPath pf v = map_option url_pathname (URL_ctor pf v (Some ''http://localhost''))
   \<and> (safeParseUrlPath pf v = None \<longleftrightarrow> URL_ctor pf v (Some ''http://localhost'') = None)
   \<and> (normalizeBasePath (opt_base opts) \<noteq> [] \<and> in_url req = Some v
        \<and> safeParseUrlPath pf v = None
      \<longrightarrow> fst (middleware pf opts st req res) = [CallNext])
   \<and> (normalizeBasePath (opt_base opts) = [] \<and> in_url req = Some v \<and> v \<noteq> []
        \<and> mf st = Some m \<and> safeParseUrlPath pf v = None
        \<and> \<not> fst (somePattern pf (excludePatterns st) v)
      \<longrightarrow> fst (middleware pf opts st req res) = workerPipeline pf opts (viteBase st) m req res)"
proof -
  have a: "safeParseUrlPath pf v = map_option url_pathname (URL_ctor pf v (Some ''http://localhost''))"
    by (simp add: safeParseUrlPath_def split: option.splits)
  then have b: "safeParseUrlPath pf v = None \<longleftrightarrow> URL_ctor pf v (Some ''http://localhost'') = None"
    by simp
  show ?thesis
    using a b middleware_unparseable_nonempty[of opts req v pf st res]
      middleware_unparseable_empty[of opts req v st m pf res]
    by blast
qed

text \<open>
  The request target \<^verbatim>\<open>//\<close> does not parse against \<^verbatim>\<open>http://localhost\<close> (its host
  is empty).  With base \<^verbatim>\<open>/app\<close> the request is passed on; with no base it reaches
  the worker pipeline.
\<close>

theorem unparseable_path_spec_witness:
  "safeParseUrlPath sample_platform ''//'' = None
   \<and> fst (middleware sample_platform \<lparr>opt_base = Some ''/app'', opt_injectClientScript = None\<rparr>
          (serving_state []) (sample_incoming ''GET'' (Some ''//'') []) fresh_res)
       = [CallNext]
   \<and> fst (middleware sample_platform \<lparr>opt_base = None, opt_injectClientScript = None\<rparr>
          (serving_state []) (sample_incoming ''GET'' (Some ''//'') []) fresh_res)
       = workerPipeline sample_platform \<lparr>opt_base = None, opt_injectClientScript = None\<rparr>
           ''/'' sample_worker (sample_incoming ''GET'' (Some ''//'') []) fresh_res"
proof -
  have u: "URL_ctor sample_platform ''//'' (Some ''http://localhost'') = None"
    by (simp add: sample_platform_def sample_URL_def sample_authority_def startsWith_def)
  have n: "normalizeBasePath (Some ''/app'') \<noteq> []" "normalizeBasePath None = []"
    by (simp_all add: normalizeBasePath_def startsWith_def stripTrailingSlashes_def)
  have r: "in_url (sample_incoming ''GET'' (Some ''//'') []) = Some ''//''"
    by (simp add: sample_incoming_def)
  have s: "mf (serving_state []) = Some sample_worker" "excludePatterns (serving_state []) = []"
    "viteBase (serving_state []) = ''/''"
    by (simp_all add: serving_state_def initial_state_def)
  show ?thesis
    using unparseable_path_spec[of sample_platform "''//''"
        "\<lparr>opt_base = Some ''/app'', opt_injectClientScript = None\<rparr>"
        "sample_incoming ''GET'' (Some ''//'') []" "serving_state []" fresh_res sample_worker]
      unparseable_path_spec[of sample_platform "''//''"
        "\<lparr>opt_base = None, opt_injectClientScript = None\<rparr>"
        "sample_incoming ''GET'' (Some ''//'') []" "serving_state []" fresh_res sample_worker]
      u n r s
    by simp
qed

text \<open>
  Claim C9 as the specification states it fails in the default configuration (no
  base): the request target \<^verbatim>\<open>//\<close> does not parse, no exclude pattern is configured,
  and the request is handed to the emulator with the path \<^verbatim>\<open>//\<close>, whose response is
  sent; \<^verbatim>\<open>next()\<close> is not called.
\<close>

theorem unparseable_path_reaches_worker:
  "safeParseUrlPath sample_platform ''//'' = None
   \<and> fst (middleware sample_platform \<lparr>opt_base = None, opt_injectClientScript = None\<rparr>
          (serving_state []) (sample_incoming ''GET'' (Some ''//'') []) fresh_res)
       = [Dispatch
            \<lparr>rq_url = \<lparr>url_origin = ''http://localhost'', url_pathname = ''//'',
                       url_search = [], url_hash = []\<rparr>,
             rq_method = ''GET'',
             rq_headers = [(''host'', ''localhost''), (''accept'', ''*/*''),
                           (''x-forwarded-for'', ''10.0.0.1,10.0.0.2'')],
             rq_body = None\<rparr>,
          Send (sendResponse sample_platform fresh_res
                  \<lparr>rs_status = 200, rs_headers = [(''content-type'', ''text/plain'')],
                   rs_body = Some ''//''\<rparr>)]"
proof -
  have u: "safeParseUrlPath sample_platform ''//'' = None"
    by (simp add: safeParseUrlPath_def sample_platform_def sample_URL_def sample_authority_def
        startsWith_def)
  have lc: "toLowerCase ''host'' = ''host''" "toLowerCase ''accept'' = ''accept''"
    "toLowerCase ''x-forwarded-for'' = ''x-forwarded-for''"
    "toLowerCase ''content-type'' = ''content-type''"
    by (simp_all add: toLowerCase_def lower_char_def)
  have w: "createWorkerRequest sample_platform (sample_incoming ''GET'' (Some ''//'') [])
           = Inr \<lparr>rq_url = \<lparr>url_origin = ''http://localhost'', url_pathname = ''//'',
                       url_search = [], url_hash = []\<rparr>,
                  rq_method = ''GET'',
                  rq_headers = [(''host'', ''localhost''), (''accept'', ''*/*''),
                                (''x-forwarded-for'', ''10.0.0.1,10.0.0.2'')],
                  rq_body = None\<rparr>"
    by (simp add: createWorkerRequest_def sample_incoming_def header_prop_def Request_ctor_def
        sample_platform_def sample_URL_def sample_authority_def startsWith_def headers_set_def lc
        includesCredentials_def isToken_def tchar_def forbiddenMethod_def normalizeMethod_def
        toUpperCase_def upper_char_def)
  have i: "injectClientScript sample_platform \<lparr>opt_base = None, opt_injectClientScript = None\<rparr>
             ''/'' \<lparr>rs_status = 200, rs_headers = [(''content-type'', ''text/plain'')],
                     rs_body = Some ''//''\<rparr>
           = Inr \<lparr>rs_status = 200, rs_headers = [(''content-type'', ''text/plain'')],
                  rs_body = Some ''//''\<rparr>"
    by (simp add: injectClientScript_def default_injectClientScript_def headers_get_def
        headers_values_def lc startsWith_def)
  have g: "createBasePathGuard None None" "rewriteRequestForBase None rq = rq" for rq
    by (simp_all add: createBasePathGuard_def rewriteRequestForBase_def
        createBasePathRewriter_def normalizeBasePath_def)
  have p: "\<not> publicFileExists sample_platform ''/srv/public'' ''//''"
    by (simp add: publicFileExists_def u)
  show ?thesis
    by (simp add: u middleware_def serving_state_def initial_state_def sample_incoming_def p g
        workerPipeline_def w[unfolded sample_incoming_def] sample_worker_def i)
qed

section \<open>The request bridge\<close>













lemma normalizeMethod_bodyless:
  "m = ''GET'' \<or> m = ''HEAD'' \<Longrightarrow> normalizeMethod m = m"
  by (auto simp: normalizeMethod_def toUpperCase_def upper_char_def)








section \<open>The response bridge\<close>

lemma lower_set_cookie: "toLowerCase ''set-cookie'' = ''set-cookie''"
  by (simp add: toLowerCase_def lower_char_def)

lemma skip_cookies:
  "toLowerCase n = ''set-cookie'' \<Longrightarrow>
     fold (\<lambda>(key, v) r. if toLowerCase key = ''set-cookie'' then r
                          else setHeader key (Single v) r) (map (Pair n) vs) r = r"
  by (induction vs) simp_all

lemma entries_fold:
  "fold (\<lambda>(key, v) r. if toLowerCase key = ''set-cookie'' then r
                        else setHeader key (Single v) r) (headers_entries pf hs) r
     = fold (copyHeader hs) (sort (remdups (map fst hs))) r"
proof -
  let ?step = "\<lambda>(key, v) r. if toLowerCase key = ''set-cookie'' then r
                        else setHeader key (Single v) r"
  let ?g = "\<lambda>n. if n = ''set-cookie'' \<and> hasGetSetCookie pf
                  then map (Pair n) (headers_values hs n)
                  else [(n, join '', '' (headers_values hs n))]"
  have one: "fold ?step (?g n) = copyHeader hs n" for n
  proof (cases "n = ''set-cookie'' \<and> hasGetSetCookie pf")
    case True
    then have "fold ?step (?g n) r = r" for r
      using skip_cookies[of n "headers_values hs n" r] lower_set_cookie by simp
    then show ?thesis using True by (auto simp: copyHeader_def lower_set_cookie fun_eq_iff)
  next
    case False
    then show ?thesis by (auto simp: copyHeader_def fun_eq_iff)
  qed
  have "fold ?step (concat (map ?g names)) r = fold (copyHeader hs) names r" for names r
    by (induction names arbitrary: r) (simp_all add: one)
  then show ?thesis by (simp add: headers_entries_def)
qed

lemma copyHeader_frame:
  "statusCode (fold (copyHeader hs) names r) = statusCode r
   \<and> res_output (fold (copyHeader hs) names r) = res_output r
   \<and> res_headers (fold (copyHeader hs) names r) ''set-cookie'' = res_headers r ''set-cookie''"
  by (induction names arbitrary: r) (auto simp: copyHeader_def setHeader_def)

lemma copyHeader_headers:
  assumes "\<forall>k\<in>set names. toLowerCase k = k" "n \<noteq> ''set-cookie''"
  shows "res_headers (fold (copyHeader hs) names r) n
     = (if n \<in> set names then Some (Single (join '', '' (headers_values hs n)))
        else res_headers r n)"
  using assms
proof (induction names arbitrary: r)
  case Nil
  then show ?case by simp
next
  case (Cons a names)
  have a: "toLowerCase a = a" using Cons.prems by simp
  have step: "res_headers (copyHeader hs a r) n
      = (if n = a then Some (Single (join '', '' (headers_values hs n))) else res_headers r n)"
    using a Cons.prems(2) by (auto simp: copyHeader_def setHeader_def)
  show ?case using Cons.IH[of "copyHeader hs a r"] Cons.prems step by auto
qed

lemma headers_get_lower:
  assumes "toLowerCase n = n"
  shows "headers_get hs n
     = (if n \<in> fst ` set hs then Some (join '', '' (headers_values hs n)) else None)"
proof -
  have "headers_values hs n = [] \<longleftrightarrow> n \<notin> fst ` set hs"
    by (induction hs) (auto simp: headers_values_def)
  then show ?thesis using assms by (auto simp: headers_get_def Let_def)
qed

lemma setCookie_frame:
  "statusCode (setHeader k v r) = statusCode r \<and> res_output (setHeader k v r) = res_output r
   \<and> (n \<noteq> toLowerCase k \<longrightarrow> res_headers (setHeader k v r) n = res_headers r n)
   \<and> res_headers (setHeader k v r) (toLowerCase k) = Some v"
  by (simp add: setHeader_def)

text \<open>The response object after the status and the cookies, before the other headers.\<close>

lemma sendResponse_unfold:
  "sendResponse pf res response =
     (let res2 = (if hasGetSetCookie pf
                  then setHeader ''set-cookie''
                         (Multi (headers_getSetCookie (rs_headers response)))
                         (res\<lparr>statusCode := rs_status response\<rparr>)
                  else case headers_get (rs_headers response) ''set-cookie'' of
                         None \<Rightarrow> res\<lparr>statusCode := rs_status response\<rparr>
                       | Some v \<Rightarrow>
                           if v = [] then res\<lparr>statusCode := rs_status response\<rparr>
                           else setHeader ''set-cookie'' (Single v)
                                  (res\<lparr>statusCode := rs_status response\<rparr>));
          res3 = fold (copyHeader (rs_headers response))
                   (sort (remdups (map fst (rs_headers response)))) res2
      in case rs_body response of
           Some b \<Rightarrow> res3\<lparr>res_output := Piped b\<rparr>
         | None \<Rightarrow> res3\<lparr>res_output := Ended\<rparr>)"
  by (auto simp: sendResponse_def Let_def entries_fold split: option.splits)

text \<open>
  Claim C6.  \<^verbatim>\<open>sendResponse\<close> copies the status code.  Every response header other
  than \<^verbatim>\<open>set-cookie\<close> is set on the native response with its value, and a name
  the response does not have keeps what the native response had.  For
  \<^verbatim>\<open>set-cookie\<close>: where \<^verbatim>\<open>getSetCookie\<close> exists, the header is set to the array
  of all cookie values, one occurrence each; otherwise it is set to the single
  combined value of \<^verbatim>\<open>get\<close>, when there is a non-empty one.  The body is piped
  when there is one, and the output is ended otherwise.  A response with the two
  cookies \<^verbatim>\<open>a=1\<close> and \<^verbatim>\<open>b=2\<close> gives both, as two values, in an environment with
  \<^verbatim>\<open>getSetCookie\<close>.
\<close>

theorem sendResponse_spec:
  "statusCode (sendResponse pf res response) = rs_status response
   \<and> ((\<forall>k\<in>fst ` set (rs_headers response). toLowerCase k = k) \<longrightarrow>
        (\<forall>n. n \<noteq> ''set-cookie'' \<and> toLowerCase n = n \<longrightarrow>
           res_headers (sendResponse pf res response) n
             = (case headers_get (rs_headers response) n of
                  None \<Rightarrow> res_headers res n
                | Some v \<Rightarrow> Some (Single v))))
   \<and> (hasGetSetCookie pf \<longrightarrow>
        res_headers (sendResponse pf res response) ''set-cookie''
          = Some (Multi (headers_getSetCookie (rs_headers response))))
   \<and> (\<not> hasGetSetCookie pf \<longrightarrow>
        res_headers (sendResponse pf res response) ''set-cookie''
          = (case headers_get (rs_headers response) ''set-cookie'' of
               None \<Rightarrow> res_headers res ''set-cookie''
             | Some v \<Rightarrow> if v = [] then res_headers res ''set-cookie'' else Some (Single v)))
   \<and> res_output (sendResponse pf res response)
        = (case rs_body response of None \<Rightarrow> Ended | Some b \<Rightarrow> Piped b)
   \<and> res_headers (sendResponse sample_platform fresh_res two_cookies) ''set-cookie''
        = Some (Multi [''a=1'', ''b=2''])"
proof -
  let ?hs = "rs_headers response"
  let ?names = "sort (remdups (map fst ?hs))"
  let ?out = "sendResponse pf res response"
  have names: "set ?names = fst ` set ?hs" by simp
  have st: "statusCode ?out = rs_status response"
    by (auto simp: sendResponse_unfold Let_def copyHeader_frame setCookie_frame
        split: option.splits)
  have out: "res_output ?out = (case rs_body response of None \<Rightarrow> Ended | Some b \<Rightarrow> Piped b)"
    by (auto simp: sendResponse_unfold Let_def split: option.splits)
  have ck1: "hasGetSetCookie pf \<longrightarrow>
        res_headers ?out ''set-cookie'' = Some (Multi (headers_getSetCookie ?hs))"
    using setCookie_frame[of "''set-cookie''"]
    by (auto simp: sendResponse_unfold Let_def copyHeader_frame lower_set_cookie
        split: option.splits)
  have ck2: "\<not> hasGetSetCookie pf \<longrightarrow>
        res_headers ?out ''set-cookie''
          = (case headers_get ?hs ''set-cookie'' of
               None \<Rightarrow> res_headers res ''set-cookie''
             | Some v \<Rightarrow> if v = [] then res_headers res ''set-cookie'' else Some (Single v))"
    using setCookie_frame[of "''set-cookie''"]
    by (auto simp: sendResponse_unfold Let_def copyHeader_frame lower_set_cookie
        split: option.splits)
  have other: "(\<forall>k\<in>fst ` set ?hs. toLowerCase k = k) \<longrightarrow>
        (\<forall>n. n \<noteq> ''set-cookie'' \<and> toLowerCase n = n \<longrightarrow>
           res_headers ?out n
             = (case headers_get ?hs n of None \<Rightarrow> res_headers res n | Some v \<Rightarrow> Some (Single v)))"
  proof (intro impI allI)
    fix n
    assume lc: "\<forall>k\<in>fst ` set ?hs. toLowerCase k = k"
      and n: "n \<noteq> ''set-cookie'' \<and> toLowerCase n = n"
    have lc': "\<forall>k\<in>set ?names. toLowerCase k = k" using lc names by simp
    have f: "res_headers (fold (copyHeader ?hs) ?names r) n
        = (if n \<in> fst ` set ?hs then Some (Single (join '', '' (headers_values ?hs n)))
           else res_headers r n)" for r
      using copyHeader_headers[OF lc', of n ?hs r] n names by simp
    have g: "headers_get ?hs n
        = (if n \<in> fst ` set ?hs then Some (join '', '' (headers_values ?hs n)) else None)"
      using headers_get_lower n by blast
    have k: "res_headers (setHeader ''set-cookie'' v r) n = res_headers r n" for v r
      using n by (simp add: setHeader_def lower_set_cookie)
    show "res_headers ?out n
        = (case headers_get ?hs n of None \<Rightarrow> res_headers res n | Some v \<Rightarrow> Some (Single v))"
      unfolding g
      by (cases "rs_body response")
        (auto simp: sendResponse_unfold Let_def f k split: option.splits simp del: set_remdups)
  qed
  have ex: "res_headers (sendResponse sample_platform fresh_res two_cookies) ''set-cookie''
        = Some (Multi [''a=1'', ''b=2''])"
  proof -
    have "hasGetSetCookie sample_platform" by (simp add: sample_platform_def)
    moreover have "headers_getSetCookie (rs_headers two_cookies) = [''a=1'', ''b=2'']"
      by (simp add: two_cookies_def headers_getSetCookie_def headers_values_def)
    moreover have "res_headers (sendResponse sample_platform fresh_res two_cookies) ''set-cookie''
        = (if hasGetSetCookie sample_platform
           then Some (Multi (headers_getSetCookie (rs_headers two_cookies)))
           else res_headers (sendResponse sample_platform fresh_res two_cookies) ''set-cookie'')"
      using setCookie_frame[of "''set-cookie''"]
      by (auto simp: sendResponse_unfold Let_def copyHeader_frame lower_set_cookie
          split: option.splits)
    ultimately show ?thesis by simp
  qed
  show ?thesis using st other ck1 ck2 out ex by blast
qed

text \<open>
  The response with two cookies, sent in an environment with \<^verbatim>\<open>getSetCookie\<close> and in
  one without.
\<close>

theorem sendResponse_spec_witness:
  "statusCode (sendResponse sample_platform fresh_res two_cookies) = 201
   \<and> res_headers (sendResponse sample_platform fresh_res two_cookies) ''content-type''
       = Some (Single ''text/html'')
   \<and> res_headers (sendResponse sample_platform fresh_res two_cookies) ''etag'' = None
   \<and> res_headers (sendResponse sample_platform fresh_res two_cookies) ''set-cookie''
       = Some (Multi [''a=1'', ''b=2''])
   \<and> res_headers (sendResponse (sample_platform\<lparr>hasGetSetCookie := False\<rparr>) fresh_res two_cookies)
         ''set-cookie''
       = Some (Single ''a=1, b=2'')
   \<and> res_output (sendResponse sample_platform fresh_res two_cookies) = Piped ''<p>ok</p>''"
proof -
  have lc: "toLowerCase ''content-type'' = ''content-type''" "toLowerCase ''etag'' = ''etag''"
    "toLowerCase ''set-cookie'' = ''set-cookie''"
    by (simp_all add: toLowerCase_def lower_char_def)
  have names: "\<forall>k\<in>fst ` set (rs_headers two_cookies). toLowerCase k = k"
    by (simp add: two_cookies_def lc)
  have g: "headers_get (rs_headers two_cookies) ''content-type'' = Some ''text/html''"
    "headers_get (rs_headers two_cookies) ''etag'' = None"
    "headers_get (rs_headers two_cookies) ''set-cookie'' = Some ''a=1, b=2''"
    "headers_getSetCookie (rs_headers two_cookies) = [''a=1'', ''b=2'']"
    by (simp_all add: two_cookies_def headers_get_def headers_getSetCookie_def
        headers_values_def lc)
  have p: "hasGetSetCookie sample_platform"
    "\<not> hasGetSetCookie (sample_platform\<lparr>hasGetSetCookie := False\<rparr>)"
    by (simp_all add: sample_platform_def)
  have r: "rs_status two_cookies = 201" "rs_body two_cookies = Some ''<p>ok</p>''"
    "res_headers fresh_res ''etag'' = None"
    by (simp_all add: two_cookies_def fresh_res_def)
  note a = sendResponse_spec[of sample_platform fresh_res two_cookies]
  note b = sendResponse_spec[of "sample_platform\<lparr>hasGetSetCookie := False\<rparr>" fresh_res two_cookies]
  have a1: "statusCode (sendResponse sample_platform fresh_res two_cookies) = 201"
    using a r by simp
  have a2: "res_headers (sendResponse sample_platform fresh_res two_cookies) ''content-type''
       = Some (Single ''text/html'')"
    using a names lc g(1) by simp
  have a3: "res_headers (sendResponse sample_platform fresh_res two_cookies) ''etag'' = None"
    using a names lc g(2) r(3) by simp
  have a4: "res_headers (sendResponse sample_platform fresh_res two_cookies) ''set-cookie''
       = Some (Multi [''a=1'', ''b=2''])"
    using a by simp
  have b1: "res_headers (sendResponse (sample_platform\<lparr>hasGetSetCookie := False\<rparr>) fresh_res
              two_cookies) ''set-cookie'' = Some (Single ''a=1, b=2'')"
    using b p(2) g(3) by simp
  have a5: "res_output (sendResponse sample_platform fresh_res two_cookies) = Piped ''<p>ok</p>''"
    using a r by simp
  show ?thesis using a1 a2 a3 a4 b1 a5 by simp
qed

section \<open>Client-script injection\<close>














text \<open>
  The statuses that \<^verbatim>\<open>new Response\<close> refuses with a body: for an HTML response with
  one of them the injection throws, and the middleware's handler passes the exception
  to \<^verbatim>\<open>next\<close>.  The response with the status 304 is an example.
\<close>

lemma inject_refused_status:
  assumes "case opt_injectClientScript opts of None \<Rightarrow> True | Some b \<Rightarrow> b"
    and "headers_get (rs_headers response) ''content-type'' = Some ct"
    and "startsWith ct ''text/html''"
    and "rs_status response < 200 \<or> 599 < rs_status response
         \<or> nullBodyStatus (rs_status response)"
  shows "injectClientScript pf opts vbase response
           = Inl (if rs_status response < 200 \<or> 599 < rs_status response
                  then RangeError else TypeError)"
  using assms
  by (auto simp: injectClientScript_def default_injectClientScript_def Let_def
      injectStringToResponse_def Response_ctor_def split: option.splits)

lemma inject_not_modified:
  "workerPipeline sample_platform \<lparr>opt_base = None, opt_injectClientScript = None\<rparr> ''/''
     (\<lambda>request. Inr not_modified_page) (sample_incoming ''GET'' (Some ''/'') []) fresh_res
   = [Dispatch \<lparr>rq_url = \<lparr>url_origin = ''http://localhost'', url_pathname = ''/'',
                          url_search = [], url_hash = []\<rparr>,
                rq_method = ''GET'',
                rq_headers = [(''host'', ''localhost''), (''accept'', ''*/*''),
                              (''x-forwarded-for'', ''10.0.0.1,10.0.0.2'')],
                rq_body = None\<rparr>,
      CallNextError TypeError]"
proof -
  have lc: "toLowerCase ''host'' = ''host''" "toLowerCase ''accept'' = ''accept''"
    "toLowerCase ''x-forwarded-for'' = ''x-forwarded-for''"
    "toLowerCase ''content-type'' = ''content-type''"
    by (simp_all add: toLowerCase_def lower_char_def)
  have w: "createWorkerRequest sample_platform (sample_incoming ''GET'' (Some ''/'') [])
           = Inr \<lparr>rq_url = \<lparr>url_origin = ''http://localhost'', url_pathname = ''/'',
                       url_search = [], url_hash = []\<rparr>,
                  rq_method = ''GET'',
                  rq_headers = [(''host'', ''localhost''), (''accept'', ''*/*''),
                                (''x-forwarded-for'', ''10.0.0.1,10.0.0.2'')],
                  rq_body = None\<rparr>"
    by (simp add: createWorkerRequest_def sample_incoming_def header_prop_def Request_ctor_def
        sample_platform_def sample_URL_def sample_authority_def startsWith_def headers_set_def lc
        includesCredentials_def isToken_def tchar_def forbiddenMethod_def normalizeMethod_def
        toUpperCase_def upper_char_def)
  have c: "headers_get (rs_headers not_modified_page) ''content-type'' = Some ''text/html''"
    by (simp add: not_modified_page_def headers_get_def headers_values_def lc)
  have i: "injectClientScript sample_platform \<lparr>opt_base = None, opt_injectClientScript = None\<rparr>
             ''/'' not_modified_page = Inl TypeError"
    using inject_refused_status[OF _ c, of "\<lparr>opt_base = None, opt_injectClientScript = None\<rparr>"
        sample_platform "''/''"]
    by (simp add: startsWith_def not_modified_page_def nullBodyStatus_def)
  have g: "rewriteRequestForBase None rq = rq" for rq
    by (simp add: rewriteRequestForBase_def createBasePathRewriter_def normalizeBasePath_def)
  show ?thesis by (simp add: workerPipeline_def w g i)
qed




end
